theory Spec2Isabelle
  imports Complex_Main "HOL-Library.Sublist"
begin

section \<open>The G-code pulse rewriter of \<^verbatim>\<open>pulse.py\<close>\<close>

text \<open>
  The program reads a G-code file as a list of lines, rewrites it line by line and writes
  the result back. The model below follows \<^verbatim>\<open>process_gcode\<close> and its helpers.

  Conventions of the embedding.
  \<^item> A Python \<^verbatim>\<open>float\<close> is a \<^typ>\<open>real\<close>. The loop is given twice. First in exact
    arithmetic (\<^verbatim>\<open>math.hypot\<close> is the exact square root, \<^verbatim>\<open>float(s)\<close> the exact
    decimal value, \<^verbatim>\<open>//\<close> the exact floor, the \<^verbatim>\<open>.5f\<close> format the correctly rounded,
    ties-to-even, decimal expansion): the results on the structure of the output and
    on the accumulator in exact arithmetic are about this one. Then with every
    operation rounded to the nearest double (\<open>process_line_fl\<close>, \<open>double\<close>), as the
    program computes: the count of pulses of a run depends on it. Overflow,
    subnormal numbers, infinities and the negative zero of IEEE doubles are outside
    both.
  \<^item> A Python \<^verbatim>\<open>str\<close> is a \<^typ>\<open>string\<close>; a character is a code point below 256.
    On these, \<^verbatim>\<open>\d\<close> is the ten ASCII digits and \<^verbatim>\<open>re.IGNORECASE\<close> relates exactly
    an ASCII letter with its other case.
  \<^item> The local variables \<^verbatim>\<open>output_lines\<close>, \<^verbatim>\<open>last_pos\<close> and
    \<^verbatim>\<open>accumulated_distance\<close> of \<^verbatim>\<open>process_gcode\<close> are the fields of a state record
    that is passed through the loop; what \<^verbatim>\<open>print\<close> writes is the field \<open>stdout\<close>.
\<close>

subsection \<open>Configurable parameters\<close>

definition TRIGGER_DISTANCE_MM :: real where
  "TRIGGER_DISTANCE_MM = 1"

definition FAN_ON_TIME_MS :: int where
  "FAN_ON_TIME_MS = 200"

subsection \<open>Strings\<close>

text \<open>\<^verbatim>\<open>str.isspace\<close> on the code points below 256.\<close>

definition is_space :: "char \<Rightarrow> bool" where
  "is_space c = (c \<in> set [CHR 0x09, CHR 0x0A, CHR 0x0B, CHR 0x0C, CHR 0x0D,
     CHR 0x1C, CHR 0x1D, CHR 0x1E, CHR 0x1F, CHR 0x20, CHR 0x85, CHR 0xA0])"

text \<open>\<^verbatim>\<open>s.strip()\<close>: leading and trailing white space removed.\<close>

definition strip :: "string \<Rightarrow> string" where
  "strip s = rev (dropWhile is_space (rev (dropWhile is_space s)))"

text \<open>\<^verbatim>\<open>sub in s\<close> for strings: \<open>sub\<close> occurs somewhere in \<open>s\<close>.\<close>

fun substring_in :: "string \<Rightarrow> string \<Rightarrow> bool" where
  "substring_in sub [] = (sub = [])"
| "substring_in sub (c # cs) = (prefix sub (c # cs) \<or> substring_in sub cs)"

definition ascii_upper :: "char \<Rightarrow> char" where
  "ascii_upper c =
     (case map_of (zip ''abcdefghijklmnopqrstuvwxyz'' ''ABCDEFGHIJKLMNOPQRSTUVWXYZ'') c of
        Some u \<Rightarrow> u | None \<Rightarrow> c)"

text \<open>
  A literal of ASCII capitals and digits matched under \<^verbatim>\<open>re.IGNORECASE\<close> at the start
  of \<open>s\<close>.
\<close>

definition ci_prefix :: "string \<Rightarrow> string \<Rightarrow> bool" where
  "ci_prefix lit s = (length lit \<le> length s \<and> map ascii_upper (take (length lit) s) = lit)"

text \<open>\<^verbatim>\<open>temperature_re = re.compile(r"^(M104|M109)", re.IGNORECASE)\<close>, used with \<^verbatim>\<open>match\<close>.\<close>

definition temperature_re_match :: "string \<Rightarrow> bool" where
  "temperature_re_match s = (ci_prefix ''M104'' s \<or> ci_prefix ''M109'' s)"

subsection \<open>A backtracking matcher for the pattern of \<^verbatim>\<open>extract_coords\<close>\<close>

text \<open>
  The pattern \<^verbatim>\<open>-?\d*\.?\d+\<close> is a sequence of character classes, each with a greedy
  quantifier. \<open>rx_match\<close> is the backtracking search of \<^verbatim>\<open>re\<close>: a quantifier takes
  as much as it can first and gives characters back when the rest of the pattern
  fails. The result is the input left after the match that is found first.
\<close>

datatype quant = One | Opt | Star | Plus

type_synonym rx = "(quant \<times> (char \<Rightarrow> bool)) list"

fun rx_match :: "rx \<Rightarrow> string \<Rightarrow> string option" where
  "rx_match [] s = Some s"
| "rx_match ((One, cls) # p) [] = None"
| "rx_match ((One, cls) # p) (c # cs) = (if cls c then rx_match p cs else None)"
| "rx_match ((Opt, cls) # p) [] = rx_match p []"
| "rx_match ((Opt, cls) # p) (c # cs) =
     (if cls c then
        (case rx_match p cs of Some r \<Rightarrow> Some r | None \<Rightarrow> rx_match p (c # cs))
      else rx_match p (c # cs))"
| "rx_match ((Star, cls) # p) [] = rx_match p []"
| "rx_match ((Star, cls) # p) (c # cs) =
     (if cls c then
        (case rx_match ((Star, cls) # p) cs of Some r \<Rightarrow> Some r | None \<Rightarrow> rx_match p (c # cs))
      else rx_match p (c # cs))"
| "rx_match ((Plus, cls) # p) [] = None"
| "rx_match ((Plus, cls) # p) (c # cs) =
     (if cls c then rx_match ((Star, cls) # p) cs else None)"

definition is_digit :: "char \<Rightarrow> bool" where
  "is_digit c = (c \<in> set ''0123456789'')"

text \<open>The group \<^verbatim>\<open>(-?\d*\.?\d+)\<close>.\<close>

definition number_rx :: rx where
  "number_rx = [(Opt, \<lambda>c. c = CHR ''-''), (Star, is_digit), (Opt, \<lambda>c. c = CHR ''.''),
     (Plus, is_digit)]"

text \<open>
  \<^verbatim>\<open>re.search(f"{axis}(-?\\d*\\.?\\d+)", line)\<close> followed by \<^verbatim>\<open>match.group(1)\<close>:
  the start positions are tried from left to right; at a position holding the axis
  letter the group is matched against what follows, and the first success is the result.
\<close>

fun re_search :: "char \<Rightarrow> string \<Rightarrow> string option" where
  "re_search axis [] = None"
| "re_search axis (c # cs) =
     (if c = axis then
        (case rx_match number_rx cs of
           Some r \<Rightarrow> Some (take (length cs - length r) cs)
         | None \<Rightarrow> re_search axis cs)
      else re_search axis cs)"

text \<open>
  What the search for \<^verbatim>\<open>-?\d*\.?\d+\<close> leaves of its input, computed without
  backtracking (shown below to be what \<open>rx_match number_rx\<close> returns): with the digits
  at the front taken, a point followed by a digit opens a fractional part, whose digits
  are taken too; otherwise the digits at the front are the match, if there are any.
\<close>

definition frac_start :: "string \<Rightarrow> bool" where
  "frac_start r =
     (case r of [] \<Rightarrow> False
      | c # r' \<Rightarrow> c = CHR ''.'' \<and> (case r' of [] \<Rightarrow> False | d # t \<Rightarrow> is_digit d))"

definition unsigned_rest :: "string \<Rightarrow> string option" where
  "unsigned_rest s =
     (let r = dropWhile is_digit s
      in if frac_start r then Some (dropWhile is_digit (tl r))
         else if takeWhile is_digit s \<noteq> [] then Some r else None)"

definition number_rest :: "string \<Rightarrow> string option" where
  "number_rest s =
     (case s of [] \<Rightarrow> None
      | c # s' \<Rightarrow> if c = CHR ''-'' then unsigned_rest s' else unsigned_rest s)"

subsection \<open>The number grammar in the words of the specification\<close>

text \<open>
  The specification's numbers ``may be signed and may have an optional fractional
  part'': an optional minus sign, then digits alone (at least one), or digits (possibly
  none) with a point and at least one digit after it. \<open>has_number s\<close>: the text \<open>s\<close>
  begins with a number.
\<close>

definition spec_unsigned :: "string \<Rightarrow> bool" where
  "spec_unsigned n =
     (case dropWhile is_digit n of
        [] \<Rightarrow> n \<noteq> []
      | c # fs \<Rightarrow> c = CHR ''.'' \<and> fs \<noteq> [] \<and> list_all is_digit fs)"

definition spec_number :: "string \<Rightarrow> bool" where
  "spec_number n =
     (case n of [] \<Rightarrow> False
      | c # r \<Rightarrow> if c = CHR ''-'' then spec_unsigned r else spec_unsigned n)"

definition has_number :: "string \<Rightarrow> bool" where
  "has_number s = (\<exists>n\<in>set (prefixes s). spec_number n)"

subsection \<open>Numbers and their text\<close>

definition digit_val :: "char \<Rightarrow> nat" where
  "digit_val c = of_char c - 48"

definition digits_val :: "string \<Rightarrow> nat" where
  "digits_val ds = foldl (\<lambda>n c. 10 * n + digit_val c) 0 ds"

text \<open>
  \<^verbatim>\<open>float(s)\<close> on a text of the shape \<^verbatim>\<open>-?\d*\.?\d+\<close>: the decimal value, exactly.
  The group of a match holds at least one digit, so \<^verbatim>\<open>float\<close> never raises here and the
  empty text never reaches it.
\<close>

definition unsigned_val :: "string \<Rightarrow> real" where
  "unsigned_val s =
     (let ip = takeWhile (\<lambda>c. c \<noteq> CHR ''.'') s; fp = drop (length ip + 1) s
      in real (digits_val ip) + real (digits_val fp) / 10 ^ length fp)"

definition float_of :: "string \<Rightarrow> real" where
  "float_of s = (case s of c # r \<Rightarrow> if c = CHR ''-'' then - unsigned_val r else unsigned_val s
                 | [] \<Rightarrow> 0)"

text \<open>The character of a decimal digit \<open>d < 10\<close>.\<close>

definition digit_char :: "nat \<Rightarrow> char" where
  "digit_char d = ''0123456789'' ! d"

text \<open>\<^verbatim>\<open>str(n)\<close> for a natural number and for an integer.\<close>

fun dec :: "nat \<Rightarrow> string" where
  "dec n = (if n < 10 then [digit_char n] else dec (n div 10) @ [digit_char (n mod 10)])"

declare dec.simps [simp del]

definition str_int :: "int \<Rightarrow> string" where
  "str_int i = (if i < 0 then ''-'' @ dec (nat (- i)) else dec (nat i))"

text \<open>Rounding to the nearest integer, a tie to the even neighbour.\<close>

definition round_half_even :: "real \<Rightarrow> int" where
  "round_half_even y =
     (let f = \<lfloor>y\<rfloor>; r = y - of_int f
      in if r < 1 / 2 then f else if 1 / 2 < r then f + 1 else if even f then f else f + 1)"

text \<open>The \<open>p\<close> decimal digits of \<open>m\<close>, zero-padded on the left.\<close>

fun frac_digits :: "nat \<Rightarrow> nat \<Rightarrow> string" where
  "frac_digits 0 m = []"
| "frac_digits (Suc p) m = frac_digits p (m div 10) @ [digit_char (m mod 10)]"

text \<open>
  The format \<^verbatim>\<open>f"{x:.pf}"\<close> for \<open>p > 0\<close>: a minus sign for a negative number, the
  integer part, a point and exactly \<open>p\<close> digits.
\<close>

definition fmt_f :: "nat \<Rightarrow> real \<Rightarrow> string" where
  "fmt_f p x =
     (let q = nat (round_half_even (\<bar>x\<bar> * 10 ^ p))
      in (if x < 0 then ''-'' else '''') @ dec (q div 10 ^ p) @ ''.'' @ frac_digits p (q mod 10 ^ p))"

subsection \<open>Coordinates and positions\<close>

text \<open>
  \<^verbatim>\<open>extract_coords\<close> returns a dict with a key for each of the four axis letters that
  \<^verbatim>\<open>re.search\<close> finds a number for.
\<close>

type_synonym coords = "char \<rightharpoonup> real"

definition extract_coords :: "string \<Rightarrow> coords" where
  "extract_coords line =
     (\<lambda>axis. if axis \<in> set ''XYEF'' then map_option float_of (re_search axis line) else None)"

text \<open>
  \<^verbatim>\<open>last_pos\<close> starts as \<^verbatim>\<open>{'X': 0.0, 'Y': 0.0, 'E': 0.0}\<close> and is only ever changed by
  \<^verbatim>\<open>update\<close> with a dict of \<^verbatim>\<open>extract_coords\<close>: the keys X, Y and E are always
  there, the key F may be missing.
\<close>

record pos =
  pX :: real
  pY :: real
  pE :: real
  pF :: "real option"

text \<open>\<^verbatim>\<open>p.update(coords)\<close>: each key of \<open>coords\<close> overwrites, the others stay.\<close>

definition pos_update :: "pos \<Rightarrow> coords \<Rightarrow> pos" where
  "pos_update p cs =
     \<lparr> pX = (case cs CHR ''X'' of Some v \<Rightarrow> v | None \<Rightarrow> pX p),
       pY = (case cs CHR ''Y'' of Some v \<Rightarrow> v | None \<Rightarrow> pY p),
       pE = (case cs CHR ''E'' of Some v \<Rightarrow> v | None \<Rightarrow> pE p),
       pF = (case cs CHR ''F'' of Some v \<Rightarrow> Some v | None \<Rightarrow> pF p) \<rparr>"

definition distance_xy :: "real \<times> real \<Rightarrow> real \<times> real \<Rightarrow> real" where
  "distance_xy p1 p2 = sqrt ((fst p2 - fst p1)\<^sup>2 + (snd p2 - snd p1)\<^sup>2)"

definition interpolate :: "real \<Rightarrow> real \<Rightarrow> real \<Rightarrow> real" where
  "interpolate a b t = a + (b - a) * t"

text \<open>
  \<^verbatim>\<open>segment_move\<close>: the generator's values for \<open>i\<close> in \<^verbatim>\<open>range(1, segments + 1)\<close>,
  in order. \<^verbatim>\<open>end.get('F', start.get('F'))\<close> is \<open>None\<close> when neither has the key.
\<close>

definition segment_move :: "pos \<Rightarrow> pos \<Rightarrow> int \<Rightarrow> pos list" where
  "segment_move start end_pos segments =
     map (\<lambda>i. let t = real_of_int i / real_of_int segments
               in \<lparr> pX = interpolate (pX start) (pX end_pos) t,
                    pY = interpolate (pY start) (pY end_pos) t,
                    pE = interpolate (pE start) (pE end_pos) t,
                    pF = (case pF end_pos of Some f \<Rightarrow> Some f | None \<Rightarrow> pF start) \<rparr>)
         [1..segments]"

subsection \<open>The rewriting loop\<close>

record state =
  output_lines :: "string list"
  last_pos :: pos
  accumulated_distance :: real
  stdout :: "string list"

definition init_state :: state where
  "init_state = \<lparr> output_lines = [], last_pos = \<lparr> pX = 0, pY = 0, pE = 0, pF = None \<rparr>,
     accumulated_distance = 0, stdout = [] \<rparr>"

text \<open>The line \<^verbatim>\<open>f"{move_type} X{p['X']:.5f} Y{p['Y']:.5f} E{p['E']:.5f}\n"\<close>.\<close>

definition move_line :: "string \<Rightarrow> pos \<Rightarrow> string" where
  "move_line move_type p =
     move_type @ '' X'' @ fmt_f 5 (pX p) @ '' Y'' @ fmt_f 5 (pY p) @ '' E'' @ fmt_f 5 (pE p)
       @ ''\<newline>''"

definition fan_on_line :: string where
  "fan_on_line = ''M106 S255 ; ON\<newline>''"

definition dwell_line :: string where
  "dwell_line = ''G4 P'' @ str_int FAN_ON_TIME_MS @ '' ; Wait\<newline>''"

definition fan_off_line :: string where
  "fan_off_line = ''M107 ; OFF\<newline>''"

text \<open>What \<^verbatim>\<open>print\<close> writes for a pulse.\<close>

definition trigger_message :: "pos \<Rightarrow> string" where
  "trigger_message seg = ''Triggered at X'' @ fmt_f 2 (pX seg) @ '' Y'' @ fmt_f 2 (pY seg)"

text \<open>One pass of the loop over \<^verbatim>\<open>segment_move(start, end, segments)\<close>.\<close>

definition pulse_step :: "string \<Rightarrow> state \<Rightarrow> pos \<Rightarrow> state" where
  "pulse_step move_type st seg =
     st \<lparr> output_lines := output_lines st
            @ [move_line move_type seg, fan_on_line, dwell_line, fan_off_line],
          stdout := stdout st @ [trigger_message seg],
          accumulated_distance := accumulated_distance st - TRIGGER_DISTANCE_MM \<rparr>"

text \<open>The body of the loop \<^verbatim>\<open>for line in lines\<close>.\<close>

definition process_line :: "state \<Rightarrow> string \<Rightarrow> state" where
  "process_line st line =
     (let stripped = strip line in
      if temperature_re_match stripped then st
      else if \<not> (prefix ''G0'' stripped \<or> prefix ''G1'' stripped) \<or> CHR ''E'' \<notin> set stripped
      then st \<lparr> output_lines := output_lines st @ [line],
                last_pos := pos_update (last_pos st) (extract_coords line) \<rparr>
      else
        let coords = extract_coords stripped;
            move_type = (if substring_in ''G1'' stripped then ''G1'' else ''G0'');
            start = last_pos st;
            end_pos = pos_update start coords;
            dist_xy = distance_xy (pX start, pY start) (pX end_pos, pY end_pos);
            extruding = (pE end_pos > pE start);
            st1 =
              (if extruding then
                 let st2 = st \<lparr> accumulated_distance := accumulated_distance st + dist_xy \<rparr>;
                     st3 =
                       (if accumulated_distance st2 \<ge> TRIGGER_DISTANCE_MM then
                          let segments = \<lfloor>accumulated_distance st2 / TRIGGER_DISTANCE_MM\<rfloor>
                          in foldl (pulse_step move_type) st2 (segment_move start end_pos segments)
                        else st2)
                 in st3 \<lparr> output_lines := output_lines st3 @ [move_line move_type end_pos] \<rparr>
               else st \<lparr> output_lines := output_lines st @ [line] \<rparr>)
        in st1 \<lparr> last_pos := pos_update (last_pos st1) coords \<rparr>)"

text \<open>
  \<^verbatim>\<open>process_gcode\<close> from the lines that \<^verbatim>\<open>readlines\<close> returns to the lines that
  \<^verbatim>\<open>writelines\<close> receives; \<open>run\<close> is the state at the end of the loop.
\<close>

definition run :: "string list \<Rightarrow> state" where
  "run lines = foldl process_line init_state lines"

definition process_gcode :: "string list \<Rightarrow> string list" where
  "process_gcode lines = output_lines (run lines)"

subsection \<open>The classes of lines and the moves of a run\<close>

text \<open>A line that the loop drops: the test of its first branch.\<close>

definition is_thermal :: "string \<Rightarrow> bool" where
  "is_thermal line = temperature_re_match (strip line)"

text \<open>
  A line that reaches the distance-tracking part of the loop: the negation of the test
  of its second branch.
\<close>

definition is_motion_e :: "string \<Rightarrow> bool" where
  "is_motion_e line =
     ((prefix ''G0'' (strip line) \<or> prefix ''G1'' (strip line)) \<and> CHR ''E'' \<in> set (strip line))"

text \<open>\<^verbatim>\<open>move_type\<close> as the loop computes it.\<close>

definition move_type_of :: "string \<Rightarrow> string" where
  "move_type_of line = (if substring_in ''G1'' (strip line) then ''G1'' else ''G0'')"

text \<open>\<^verbatim>\<open>end\<close>: the position held before the line with the line's coordinates merged in.\<close>

definition end_of :: "pos \<Rightarrow> string \<Rightarrow> pos" where
  "end_of p line = pos_update p (extract_coords (strip line))"

text \<open>
  The planar displacement \<^verbatim>\<open>dist_xy\<close> of a depositing move: the line reaches the
  distance-tracking part from position \<open>p\<close> and \<^verbatim>\<open>extruding\<close> is true.
\<close>

definition deposit_dist :: "pos \<Rightarrow> string \<Rightarrow> real option" where
  "deposit_dist p line =
     (if \<not> is_thermal line \<and> is_motion_e line \<and> pE (end_of p line) > pE p
      then Some (distance_xy (pX p, pY p) (pX (end_of p line), pY (end_of p line)))
      else None)"

text \<open>The displacements of the depositing moves met when the loop runs from \<open>st\<close>.\<close>

fun deposit_dists :: "state \<Rightarrow> string list \<Rightarrow> real list" where
  "deposit_dists st [] = []"
| "deposit_dists st (l # ls) =
     (case deposit_dist (last_pos st) l of Some d \<Rightarrow> [d] | None \<Rightarrow> [])
       @ deposit_dists (process_line st l) ls"

text \<open>
  The lines that the loop copies as they are when it runs from \<open>st\<close>: every line that
  is not thermal and is not a depositing move, whether it passes the second branch or
  is a G0/G1 line with an E that does not extrude (a retraction, say).
\<close>

fun copied_lines :: "state \<Rightarrow> string list \<Rightarrow> string list" where
  "copied_lines st [] = []"
| "copied_lines st (l # ls) =
     (if \<not> is_thermal l \<and> deposit_dist (last_pos st) l = None then [l] else [])
       @ copied_lines (process_line st l) ls"

text \<open>
  The crossing count of a line: \<^verbatim>\<open>segments\<close> when the loop over \<^verbatim>\<open>segment_move\<close>
  is entered, and 0 when it is not.
\<close>

definition crossings :: "state \<Rightarrow> string \<Rightarrow> int" where
  "crossings st line =
     (case deposit_dist (last_pos st) line of
        None \<Rightarrow> 0
      | Some d \<Rightarrow>
          if accumulated_distance st + d \<ge> TRIGGER_DISTANCE_MM
          then \<lfloor>(accumulated_distance st + d) / TRIGGER_DISTANCE_MM\<rfloor> else 0)"

text \<open>The four lines of one pulse.\<close>

definition pulse_lines :: "string \<Rightarrow> pos \<Rightarrow> string list" where
  "pulse_lines move_type seg = [move_line move_type seg, fan_on_line, dwell_line, fan_off_line]"

text \<open>The lines that the loop body appends to \<^verbatim>\<open>output_lines\<close> for one input line.\<close>

definition emitted :: "state \<Rightarrow> string \<Rightarrow> string list" where
  "emitted st line = drop (length (output_lines st)) (output_lines (process_line st line))"

subsection \<open>The loop in double precision\<close>

text \<open>
  The definitions above compute in the reals. The program computes in IEEE doubles:
  \<^verbatim>\<open>float(s)\<close>, every \<^verbatim>\<open>+\<close>, \<^verbatim>\<open>-\<close>, \<^verbatim>\<open>*\<close> and \<^verbatim>\<open>/\<close>, and \<^verbatim>\<open>math.hypot\<close> return the
  double nearest to the exact result. The loop is therefore given a second time, with
  a rounding function \<open>fl\<close> applied wherever the program rounds; with the identity for
  \<open>fl\<close> it is the loop above (\<open>process_line_fl_exact\<close> below), with \<open>double\<close> it is the
  program.

  \<open>double x\<close> is the double nearest to \<open>x\<close>, a tie going to the even significand: with
  \<open>2 ^ e \<le> \<bar>x\<bar> < 2 ^ (e + 1)\<close>, the multiple of \<open>2 ^ (e - 52)\<close> nearest to \<open>x\<close>. Overflow
  (beyond about \<open>1.8e308\<close>), the subnormal numbers (below about \<open>2.2e-308\<close>), infinities
  and the negative zero are outside the model. The comparisons \<^verbatim>\<open>></\<close> and \<^verbatim>\<open>>=\<close> are
  exact on doubles, \<^verbatim>\<open>x // 1.0\<close> is the exact floor of \<open>x\<close>, and the format \<^verbatim>\<open>.5f\<close>
  rounds the exact value of the double, which is what \<open>fmt_f\<close> does with it.
  \<^verbatim>\<open>math.hypot\<close> is taken as correctly rounded; it is exact when one argument is 0.
\<close>

definition double :: "real \<Rightarrow> real" where
  "double x =
     (if x = 0 then 0
      else let e = \<lfloor>log 2 \<bar>x\<bar>\<rfloor>
           in real_of_int (round_half_even (x * 2 powr (52 - real_of_int e)))
                * 2 powr (real_of_int e - 52))"

text \<open>\<^verbatim>\<open>extract_coords\<close>, with \<^verbatim>\<open>float\<close> rounding the decimal value.\<close>

definition extract_coords_fl :: "(real \<Rightarrow> real) \<Rightarrow> string \<Rightarrow> coords" where
  "extract_coords_fl fl line = (\<lambda>axis. map_option fl (extract_coords line axis))"

definition distance_xy_fl :: "(real \<Rightarrow> real) \<Rightarrow> real \<times> real \<Rightarrow> real \<times> real \<Rightarrow> real" where
  "distance_xy_fl fl p1 p2 = fl (sqrt ((fl (fst p2 - fst p1))\<^sup>2 + (fl (snd p2 - snd p1))\<^sup>2))"

definition interpolate_fl :: "(real \<Rightarrow> real) \<Rightarrow> real \<Rightarrow> real \<Rightarrow> real \<Rightarrow> real" where
  "interpolate_fl fl a b t = fl (a + fl (fl (b - a) * t))"

definition segment_move_fl :: "(real \<Rightarrow> real) \<Rightarrow> pos \<Rightarrow> pos \<Rightarrow> int \<Rightarrow> pos list" where
  "segment_move_fl fl start end_pos segments =
     map (\<lambda>i. let t = fl (real_of_int i / real_of_int segments)
               in \<lparr> pX = interpolate_fl fl (pX start) (pX end_pos) t,
                    pY = interpolate_fl fl (pY start) (pY end_pos) t,
                    pE = interpolate_fl fl (pE start) (pE end_pos) t,
                    pF = (case pF end_pos of Some f \<Rightarrow> Some f | None \<Rightarrow> pF start) \<rparr>)
         [1..segments]"

definition pulse_step_fl :: "(real \<Rightarrow> real) \<Rightarrow> string \<Rightarrow> state \<Rightarrow> pos \<Rightarrow> state" where
  "pulse_step_fl fl move_type st seg =
     st \<lparr> output_lines := output_lines st
            @ [move_line move_type seg, fan_on_line, dwell_line, fan_off_line],
          stdout := stdout st @ [trigger_message seg],
          accumulated_distance := fl (accumulated_distance st - TRIGGER_DISTANCE_MM) \<rparr>"

definition process_line_fl :: "(real \<Rightarrow> real) \<Rightarrow> state \<Rightarrow> string \<Rightarrow> state" where
  "process_line_fl fl st line =
     (let stripped = strip line in
      if temperature_re_match stripped then st
      else if \<not> (prefix ''G0'' stripped \<or> prefix ''G1'' stripped) \<or> CHR ''E'' \<notin> set stripped
      then st \<lparr> output_lines := output_lines st @ [line],
                last_pos := pos_update (last_pos st) (extract_coords_fl fl line) \<rparr>
      else
        let coords = extract_coords_fl fl stripped;
            move_type = (if substring_in ''G1'' stripped then ''G1'' else ''G0'');
            start = last_pos st;
            end_pos = pos_update start coords;
            dist_xy = distance_xy_fl fl (pX start, pY start) (pX end_pos, pY end_pos);
            extruding = (pE end_pos > pE start);
            st1 =
              (if extruding then
                 let st2 = st \<lparr> accumulated_distance := fl (accumulated_distance st + dist_xy) \<rparr>;
                     st3 =
                       (if accumulated_distance st2 \<ge> TRIGGER_DISTANCE_MM then
                          let segments = \<lfloor>accumulated_distance st2 / TRIGGER_DISTANCE_MM\<rfloor>
                          in foldl (pulse_step_fl fl move_type) st2
                               (segment_move_fl fl start end_pos segments)
                        else st2)
                 in st3 \<lparr> output_lines := output_lines st3 @ [move_line move_type end_pos] \<rparr>
               else st \<lparr> output_lines := output_lines st @ [line] \<rparr>)
        in st1 \<lparr> last_pos := pos_update (last_pos st1) coords \<rparr>)"

definition run_fl :: "(real \<Rightarrow> real) \<Rightarrow> string list \<Rightarrow> state" where
  "run_fl fl lines = foldl (process_line_fl fl) init_state lines"

text \<open>\<^verbatim>\<open>process_gcode\<close> as the program computes it, in doubles.\<close>

definition process_gcode_double :: "string list \<Rightarrow> string list" where
  "process_gcode_double lines = output_lines (run_fl double lines)"

section \<open>Auxiliary facts\<close>

subsection \<open>The loop over the pulses\<close>

lemma foldl_pulse_step:
  "foldl (pulse_step mt) st segs =
     st \<lparr> output_lines := output_lines st @ concat (map (pulse_lines mt) segs),
          stdout := stdout st @ map trigger_message segs,
          accumulated_distance :=
            accumulated_distance st - real (length segs) * TRIGGER_DISTANCE_MM \<rparr>"
  by (induction segs arbitrary: st) (simp_all add: pulse_step_def pulse_lines_def algebra_simps)

lemma length_segment_move: "length (segment_move s e n) = nat n"
  by (simp add: segment_move_def)

lemma segment_move_nonpos: "n \<le> 0 \<Longrightarrow> segment_move s e n = []"
  by (simp add: segment_move_def)

subsection \<open>White space does not change what is extracted\<close>

lemma rx_match_append:
  assumes "\<forall>x\<in>set p. \<forall>c\<in>set ws. \<not> snd x c"
  shows "rx_match p (t @ ws) = map_option (\<lambda>r. r @ ws) (rx_match p t)"
  using assms
proof (induction p t rule: rx_match.induct)
  case (1 s)
  then show ?case by simp
next
  case (2 cls p)
  then show ?case by (cases ws) simp_all
next
  case (3 cls p c cs)
  then show ?case by simp
next
  case (4 cls p)
  then show ?case by (cases ws) simp_all
next
  case (5 cls p c cs)
  then have H: "\<forall>x\<in>set p. \<forall>c\<in>set ws. \<not> snd x c" by simp
  show ?case
  proof (cases "cls c")
    case True
    then show ?thesis using "5.IH"(1)[OF True H] "5.IH"(2)[OF True _ H]
      by (cases "rx_match p cs") simp_all
  next
    case False
    then show ?thesis using "5.IH"(3)[OF False H] by simp
  qed
next
  case (6 cls p)
  then show ?case by (cases ws) simp_all
next
  case (7 cls p c cs)
  then have H: "\<forall>x\<in>set p. \<forall>c\<in>set ws. \<not> snd x c" by simp
  show ?case
  proof (cases "cls c")
    case True
    then show ?thesis using "7.IH"(1)[OF True "7.prems"] "7.IH"(2)[OF True _ H]
      by (cases "rx_match ((Star, cls) # p) cs") simp_all
  next
    case False
    then show ?thesis using "7.IH"(3)[OF False H] by simp
  qed
next
  case (8 cls p)
  then show ?case by (cases ws) simp_all
next
  case (9 cls p c cs)
  then show ?case by simp
qed

lemma rx_match_suffix: "rx_match p s = Some r \<Longrightarrow> suffix r s"
proof (induction p s arbitrary: r rule: rx_match.induct)
  case (5 cls p c cs)
  then show ?case by (auto split: if_splits option.splits intro: suffix_ConsI)
next
  case (7 cls p c cs)
  then show ?case by (auto split: if_splits option.splits intro: suffix_ConsI)
qed (auto split: if_splits intro: suffix_ConsI)

lemma re_search_append:
  assumes "axis \<notin> set ws"
    and "\<forall>c\<in>set ws. \<not> is_digit c \<and> c \<noteq> CHR ''-'' \<and> c \<noteq> CHR ''.''"
  shows "re_search axis (s @ ws) = re_search axis s"
proof (induction s)
  case Nil
  from assms(1) show ?case by (induction ws) auto
next
  case (Cons c cs)
  have m: "rx_match number_rx (cs @ ws) = map_option (\<lambda>r. r @ ws) (rx_match number_rx cs)"
    by (rule rx_match_append) (use assms(2) in \<open>simp add: number_rx_def\<close>)
  show ?case
  proof (cases "rx_match number_rx cs")
    case None
    then show ?thesis using Cons m by simp
  next
    case (Some r)
    then have "length r \<le> length cs" using rx_match_suffix suffix_length_le by blast
    then show ?thesis using Some m Cons by simp
  qed
qed

lemma re_search_prepend: "axis \<notin> set ws \<Longrightarrow> re_search axis (ws @ s) = re_search axis s"
  by (induction ws) auto

lemma is_space_not_number:
  "is_space c \<Longrightarrow> \<not> is_digit c \<and> c \<noteq> CHR ''-'' \<and> c \<noteq> CHR ''.''"
  by (auto simp add: is_space_def is_digit_def)

lemma axis_not_space: "axis \<in> set ''XYEF'' \<Longrightarrow> \<not> is_space axis"
  by (auto simp add: is_space_def)

lemma strip_decomp:
  "\<exists>l r. l @ strip line @ r = line \<and> (\<forall>c\<in>set l. is_space c) \<and> (\<forall>c\<in>set r. is_space c)"
proof -
  let ?d = "dropWhile is_space line"
  have "rev (takeWhile is_space (rev ?d) @ dropWhile is_space (rev ?d)) = ?d"
    by (simp only: takeWhile_dropWhile_id rev_rev_ident)
  then have 2: "strip line @ rev (takeWhile is_space (rev ?d)) = ?d"
    by (simp only: strip_def rev_append)
  have "takeWhile is_space line @ strip line @ rev (takeWhile is_space (rev ?d)) = line"
    by (simp only: 2 takeWhile_dropWhile_id)
  moreover have "\<forall>c\<in>set (takeWhile is_space line). is_space c"
    using set_takeWhileD by fastforce
  moreover have "\<forall>c\<in>set (rev (takeWhile is_space (rev ?d))). is_space c"
    using set_takeWhileD by fastforce
  ultimately show ?thesis by blast
qed

lemma re_search_strip:
  assumes "\<not> is_space axis"
  shows "re_search axis (strip line) = re_search axis line"
proof -
  obtain l r where lr: "l @ strip line @ r = line" "\<forall>c\<in>set l. is_space c"
    "\<forall>c\<in>set r. is_space c"
    using strip_decomp by blast
  have a: "axis \<notin> set l" "axis \<notin> set r" using lr(2,3) assms by auto
  have b: "\<forall>c\<in>set r. \<not> is_digit c \<and> c \<noteq> CHR ''-'' \<and> c \<noteq> CHR ''.''"
    using lr(3) is_space_not_number by blast
  have "re_search axis (l @ (strip line @ r)) = re_search axis (strip line)"
    using re_search_prepend[OF a(1)] re_search_append[OF a(2) b] by simp
  then show ?thesis by (simp only: lr(1))
qed

lemma extract_coords_strip: "extract_coords (strip line) = extract_coords line"
proof
  fix axis
  show "extract_coords (strip line) axis = extract_coords line axis"
  proof (cases "axis \<in> set ''XYEF''")
    case True
    then have "\<not> is_space axis" by (rule axis_not_space)
    then show ?thesis by (simp add: extract_coords_def re_search_strip)
  next
    case False
    then show ?thesis by (simp add: extract_coords_def)
  qed
qed

subsection \<open>The branches of the loop body\<close>

lemma motion_not_thermal:
  "prefix ''G0'' (strip line) \<or> prefix ''G1'' (strip line) \<Longrightarrow> \<not> is_thermal line"
  by (auto simp add: is_thermal_def temperature_re_match_def ci_prefix_def ascii_upper_def prefix_def)

lemma process_line_thermal: "is_thermal line \<Longrightarrow> process_line st line = st"
  by (simp add: process_line_def is_thermal_def)

lemma process_line_passthrough:
  "\<not> is_thermal line \<Longrightarrow> \<not> is_motion_e line \<Longrightarrow>
   process_line st line =
     st \<lparr> output_lines := output_lines st @ [line],
          last_pos := end_of (last_pos st) line \<rparr>"
  by (auto simp add: process_line_def is_thermal_def is_motion_e_def Let_def end_of_def
      extract_coords_strip)

lemma process_line_not_extruding:
  "\<not> is_thermal line \<Longrightarrow> is_motion_e line \<Longrightarrow>
   \<not> pE (end_of (last_pos st) line) > pE (last_pos st) \<Longrightarrow>
   process_line st line =
     st \<lparr> output_lines := output_lines st @ [line],
          last_pos := end_of (last_pos st) line \<rparr>"
  by (auto simp add: process_line_def is_thermal_def is_motion_e_def Let_def end_of_def)

lemma process_line_verbatim:
  assumes "\<not> is_thermal line" and "deposit_dist (last_pos st) line = None"
  shows "process_line st line =
     st \<lparr> output_lines := output_lines st @ [line],
          last_pos := end_of (last_pos st) line \<rparr>"
proof (cases "is_motion_e line")
  case True
  with assms have "\<not> pE (end_of (last_pos st) line) > pE (last_pos st)"
    by (simp add: deposit_dist_def split: if_splits)
  with assms(1) True show ?thesis by (rule process_line_not_extruding)
next
  case False
  with assms(1) show ?thesis by (rule process_line_passthrough)
qed

lemma process_line_depositing:
  assumes "deposit_dist (last_pos st) line = Some d"
  shows "process_line st line =
     st \<lparr> output_lines := output_lines st
            @ concat (map (pulse_lines (move_type_of line))
                (segment_move (last_pos st) (end_of (last_pos st) line) (crossings st line)))
            @ [move_line (move_type_of line) (end_of (last_pos st) line)],
          stdout := stdout st
            @ map trigger_message
                (segment_move (last_pos st) (end_of (last_pos st) line) (crossings st line)),
          accumulated_distance :=
            accumulated_distance st + d - real_of_int (crossings st line) * TRIGGER_DISTANCE_MM,
          last_pos := end_of (last_pos st) line \<rparr>"
proof -
  from assms have c: "\<not> is_thermal line" "is_motion_e line"
    "pE (end_of (last_pos st) line) > pE (last_pos st)"
    and d: "d = distance_xy (pX (last_pos st), pY (last_pos st))
               (pX (end_of (last_pos st) line), pY (end_of (last_pos st) line))"
    by (auto simp add: deposit_dist_def split: if_splits)
  show ?thesis
  proof (cases "accumulated_distance st + d \<ge> TRIGGER_DISTANCE_MM")
    case True
    then have cr: "crossings st line = \<lfloor>(accumulated_distance st + d) / TRIGGER_DISTANCE_MM\<rfloor>"
      using assms by (simp add: crossings_def)
    have "0 \<le> crossings st line"
      using True by (simp add: cr TRIGGER_DISTANCE_MM_def)
    then show ?thesis
      using c True
      by (simp add: process_line_def is_thermal_def is_motion_e_def Let_def end_of_def[symmetric]
          move_type_of_def[symmetric] foldl_pulse_step length_segment_move d[symmetric]
          cr[symmetric])
  next
    case False
    then have cr: "crossings st line = 0"
      using assms by (simp add: crossings_def)
    show ?thesis
      using c False
      by (simp add: process_line_def is_thermal_def is_motion_e_def Let_def end_of_def[symmetric]
          move_type_of_def[symmetric] cr segment_move_nonpos d[symmetric])
  qed
qed

lemma emitted_thermal: "is_thermal line \<Longrightarrow> emitted st line = []"
  by (simp add: emitted_def process_line_thermal)

lemma emitted_verbatim:
  "\<not> is_thermal line \<Longrightarrow> deposit_dist (last_pos st) line = None \<Longrightarrow> emitted st line = [line]"
  by (simp add: emitted_def process_line_verbatim)

lemma emitted_depositing:
  "deposit_dist (last_pos st) line = Some d \<Longrightarrow>
   emitted st line =
     concat (map (pulse_lines (move_type_of line))
       (segment_move (last_pos st) (end_of (last_pos st) line) (crossings st line)))
     @ [move_line (move_type_of line) (end_of (last_pos st) line)]"
  by (simp add: emitted_def process_line_depositing)

lemma output_lines_process_line:
  "output_lines (process_line st line) = output_lines st @ emitted st line"
proof (cases "is_thermal line")
  case True
  then show ?thesis by (simp add: emitted_def process_line_thermal)
next
  case False
  show ?thesis
  proof (cases "deposit_dist (last_pos st) line")
    case None
    with False show ?thesis by (simp add: emitted_def process_line_verbatim)
  next
    case (Some d)
    then show ?thesis by (simp add: emitted_def process_line_depositing)
  qed
qed

text \<open>
  The pulse groups of a depositing move, written out: for \<open>i\<close> from 1 to the crossing
  count, the motion line of the point at the fraction \<open>i / count\<close> of the way from the
  start to the end position, followed by the three actuator lines.
\<close>

lemma pulse_emission:
  assumes "deposit_dist (last_pos st) line = Some d"
  shows "take (4 * nat (crossings st line)) (emitted st line) =
     concat (map (\<lambda>i.
        [move_type_of line
           @ '' X'' @ fmt_f 5 (pX (last_pos st)
               + (pX (end_of (last_pos st) line) - pX (last_pos st))
                 * (real_of_int i / real_of_int (crossings st line)))
           @ '' Y'' @ fmt_f 5 (pY (last_pos st)
               + (pY (end_of (last_pos st) line) - pY (last_pos st))
                 * (real_of_int i / real_of_int (crossings st line)))
           @ '' E'' @ fmt_f 5 (pE (last_pos st)
               + (pE (end_of (last_pos st) line) - pE (last_pos st))
                 * (real_of_int i / real_of_int (crossings st line)))
           @ ''\<newline>'',
         fan_on_line, dwell_line, fan_off_line])
       [1..crossings st line])"
proof -
  let ?segs = "segment_move (last_pos st) (end_of (last_pos st) line) (crossings st line)"
  have l: "length (concat (map (pulse_lines mt) segs)) = 4 * length segs" for mt segs
    by (induction segs) (simp_all add: pulse_lines_def)
  have "take (4 * nat (crossings st line)) (emitted st line)
      = concat (map (pulse_lines (move_type_of line)) ?segs)"
    by (simp add: emitted_depositing[OF assms] l length_segment_move)
  then show ?thesis
    by (simp add: segment_move_def pulse_lines_def move_line_def interpolate_def Let_def comp_def)
qed

subsection \<open>Lines of the output are never thermal lines\<close>

lemma strip_keeps_prefix:
  assumes "pre \<noteq> []" and "\<forall>c\<in>set pre. \<not> is_space c"
  shows "prefix pre (strip (pre @ s))"
proof -
  obtain c pre' where p: "pre = c # pre'" using assms(1) by (cases pre) auto
  then have d: "dropWhile is_space (pre @ s) = pre @ s" using assms(2) by simp
  have "\<not> is_space (last pre)" using assms by simp
  then have r: "dropWhile is_space (rev pre) = rev pre"
    using assms(1) by (cases "rev pre") (auto simp add: last_rev hd_rev[symmetric])
  have "\<exists>u. dropWhile is_space (rev s @ rev pre) = u @ rev pre"
    by (simp add: dropWhile_append r)
  then obtain u where "dropWhile is_space (rev (pre @ s)) = u @ rev pre" by auto
  then have "strip (pre @ s) = pre @ rev u" by (simp add: strip_def d)
  then show ?thesis by simp
qed

lemma move_line_not_thermal: "\<not> is_thermal (move_line (move_type_of line) p)"
proof -
  have "\<exists>s. move_line (move_type_of line) p = ''G0'' @ s
      \<or> move_line (move_type_of line) p = ''G1'' @ s"
    by (simp add: move_line_def move_type_of_def)
  then obtain s where s: "move_line (move_type_of line) p = ''G0'' @ s
      \<or> move_line (move_type_of line) p = ''G1'' @ s"
    by blast
  have "prefix ''G0'' (strip (''G0'' @ s))" "prefix ''G1'' (strip (''G1'' @ s))"
    by (rule strip_keeps_prefix; simp add: is_space_def)+
  with s have "prefix ''G0'' (strip (move_line (move_type_of line) p))
      \<or> prefix ''G1'' (strip (move_line (move_type_of line) p))"
    by metis
  then show ?thesis by (rule motion_not_thermal)
qed

lemma actuator_lines_not_thermal:
  "\<not> is_thermal fan_on_line" "\<not> is_thermal dwell_line" "\<not> is_thermal fan_off_line"
  by (simp_all add: is_thermal_def strip_def is_space_def temperature_re_match_def ci_prefix_def
      ascii_upper_def fan_on_line_def dwell_line_def fan_off_line_def str_int_def
      FAN_ON_TIME_MS_def dec.simps digit_char_def)

lemma emitted_not_thermal: "l \<in> set (emitted st line) \<Longrightarrow> \<not> is_thermal l"
proof (cases "is_thermal line")
  case True
  assume "l \<in> set (emitted st line)"
  with True show ?thesis by (simp add: emitted_thermal)
next
  case nt: False
  assume l: "l \<in> set (emitted st line)"
  show ?thesis
  proof (cases "deposit_dist (last_pos st) line")
    case None
    with nt l show ?thesis by (simp add: emitted_verbatim)
  next
    case (Some d)
    with l show ?thesis
      by (auto simp add: emitted_depositing pulse_lines_def move_line_not_thermal
          actuator_lines_not_thermal)
  qed
qed

lemma foldl_output_not_thermal:
  "\<forall>l\<in>set (output_lines st). \<not> is_thermal l \<Longrightarrow>
   \<forall>l\<in>set (output_lines (foldl process_line st lines)). \<not> is_thermal l"
proof (induction lines arbitrary: st)
  case Nil
  then show ?case by simp
next
  case (Cons a lines)
  have "\<forall>l\<in>set (output_lines (process_line st a)). \<not> is_thermal l"
    using Cons.prems emitted_not_thermal by (auto simp add: output_lines_process_line)
  then show ?case using Cons.IH by simp
qed

lemma foldl_filter_thermal:
  "foldl process_line st (filter (\<lambda>l. \<not> is_thermal l) lines) = foldl process_line st lines"
  by (induction lines arbitrary: st) (simp_all add: process_line_thermal)

lemma ascii_upper_space: "is_space c \<Longrightarrow> ascii_upper c = c"
proof -
  have "\<forall>c\<in>set [CHR 0x09, CHR 0x0A, CHR 0x0B, CHR 0x0C, CHR 0x0D,
     CHR 0x1C, CHR 0x1D, CHR 0x1E, CHR 0x1F, CHR 0x20, CHR 0x85, CHR 0xA0]. ascii_upper c = c"
    by (simp add: ascii_upper_def)
  then show "is_space c \<Longrightarrow> ascii_upper c = c"
    unfolding is_space_def by blast
qed

lemma literal_not_space: "c \<in> set ''M1049'' \<Longrightarrow> \<not> is_space c"
proof -
  have "\<forall>c\<in>set ''M1049''. \<not> is_space c"
    by (simp add: is_space_def)
  then show "c \<in> set ''M1049'' \<Longrightarrow> \<not> is_space c" by blast
qed

lemma literal_prefix_thermal:
  assumes "ci_prefix ''M104'' line \<or> ci_prefix ''M109'' line"
  shows "is_thermal line"
proof -
  let ?pre = "take 4 line"
  have l4: "length ''M104'' = 4" "length ''M109'' = 4" by simp_all
  from assms have "(4 \<le> length line \<and> map ascii_upper ?pre = ''M104'')
      \<or> (4 \<le> length line \<and> map ascii_upper ?pre = ''M109'')"
    by (simp only: ci_prefix_def l4)
  then have len: "4 \<le> length line"
    and u: "map ascii_upper ?pre = ''M104'' \<or> map ascii_upper ?pre = ''M109''"
    by blast+
  have ns: "\<forall>c\<in>set ?pre. \<not> is_space c"
  proof
    fix c assume c: "c \<in> set ?pre"
    then have "ascii_upper c \<in> set (map ascii_upper ?pre)" by simp
    with u have m: "ascii_upper c \<in> set ''M1049''" by auto
    show "\<not> is_space c"
    proof
      assume sp: "is_space c"
      then have "ascii_upper c = c" by (rule ascii_upper_space)
      with m have "c \<in> set ''M1049''" by simp
      then have "\<not> is_space c" by (rule literal_not_space)
      with sp show False by simp
    qed
  qed
  have ne: "?pre \<noteq> []" using len by auto
  have "prefix ?pre (strip (?pre @ drop 4 line))" using ne ns by (rule strip_keeps_prefix)
  then have p: "prefix ?pre (strip line)" by simp
  then obtain t where t: "strip line = ?pre @ t" by (auto simp add: prefix_def)
  have lp: "length ?pre = 4" using len by simp
  have "take 4 (strip line) = ?pre" "4 \<le> length (strip line)"
    using lp by (simp_all add: t)
  with u show ?thesis
    by (simp only: is_thermal_def temperature_re_match_def ci_prefix_def l4) simp
qed

lemma foldl_output_subseq:
  "\<exists>new. output_lines (foldl process_line st lines) = output_lines st @ new
     \<and> subseq (filter (\<lambda>l. \<not> is_thermal l \<and> \<not> is_motion_e l) lines) new"
proof (induction lines arbitrary: st)
  case Nil
  then show ?case by simp
next
  case (Cons a lines)
  obtain new where n: "output_lines (foldl process_line (process_line st a) lines)
      = output_lines (process_line st a) @ new"
    "subseq (filter (\<lambda>l. \<not> is_thermal l \<and> \<not> is_motion_e l) lines) new"
    using Cons.IH by blast
  have e: "subseq (filter (\<lambda>l. \<not> is_thermal l \<and> \<not> is_motion_e l) [a]) (emitted st a)"
  proof (cases "\<not> is_thermal a \<and> \<not> is_motion_e a")
    case True
    then have "deposit_dist (last_pos st) a = None" by (simp add: deposit_dist_def)
    with True show ?thesis by (simp add: emitted_verbatim)
  next
    case False
    then show ?thesis by auto
  qed
  have "subseq (filter (\<lambda>l. \<not> is_thermal l \<and> \<not> is_motion_e l) [a]
      @ filter (\<lambda>l. \<not> is_thermal l \<and> \<not> is_motion_e l) lines) (emitted st a @ new)"
    using e n(2) by (rule list_emb_append_mono)
  then have "subseq (filter (\<lambda>l. \<not> is_thermal l \<and> \<not> is_motion_e l) (a # lines)) (emitted st a @ new)"
    by (simp only: filter_append[symmetric] append_Cons append_Nil)
  moreover have "output_lines (foldl process_line st (a # lines)) = output_lines st @ emitted st a @ new"
    using n(1) by (simp add: output_lines_process_line)
  ultimately show ?case by blast
qed

lemma foldl_output_copied:
  "\<exists>new. output_lines (foldl process_line st lines) = output_lines st @ new
     \<and> subseq (copied_lines st lines) new"
proof (induction lines arbitrary: st)
  case Nil
  then show ?case by simp
next
  case (Cons a lines)
  let ?c = "if \<not> is_thermal a \<and> deposit_dist (last_pos st) a = None then [a] else []"
  obtain new where n: "output_lines (foldl process_line (process_line st a) lines)
      = output_lines (process_line st a) @ new"
    "subseq (copied_lines (process_line st a) lines) new"
    using Cons.IH by blast
  have e: "subseq ?c (emitted st a)"
  proof (cases "\<not> is_thermal a \<and> deposit_dist (last_pos st) a = None")
    case True
    then show ?thesis by (simp add: emitted_verbatim)
  next
    case False
    then show ?thesis by auto
  qed
  have "subseq (?c @ copied_lines (process_line st a) lines) (emitted st a @ new)"
    using e n(2) by (rule list_emb_append_mono)
  then have "subseq (copied_lines st (a # lines)) (emitted st a @ new)"
    by (simp only: copied_lines.simps)
  moreover have "output_lines (foldl process_line st (a # lines))
      = output_lines st @ emitted st a @ new"
    using n(1) by (simp add: output_lines_process_line)
  ultimately show ?case by blast
qed

lemma filter_subseq_copied:
  "subseq (filter (\<lambda>l. \<not> is_thermal l \<and> \<not> is_motion_e l) lines) (copied_lines st lines)"
proof (induction lines arbitrary: st)
  case Nil
  then show ?case by simp
next
  case (Cons a lines)
  have d: "\<not> is_motion_e a \<Longrightarrow> deposit_dist (last_pos st) a = None"
    by (simp add: deposit_dist_def)
  have "subseq (filter (\<lambda>l. \<not> is_thermal l \<and> \<not> is_motion_e l) [a])
      (if \<not> is_thermal a \<and> deposit_dist (last_pos st) a = None then [a] else [])"
    using d by auto
  then have "subseq (filter (\<lambda>l. \<not> is_thermal l \<and> \<not> is_motion_e l) [a]
        @ filter (\<lambda>l. \<not> is_thermal l \<and> \<not> is_motion_e l) lines)
      ((if \<not> is_thermal a \<and> deposit_dist (last_pos st) a = None then [a] else [])
        @ copied_lines (process_line st a) lines)"
    using Cons.IH by (rule list_emb_append_mono)
  then show ?case
    by (simp only: filter_append[symmetric] append_Cons append_Nil copied_lines.simps)
qed

subsection \<open>The characters of a formatted number\<close>

lemma digit_char_is_digit: "d < 10 \<Longrightarrow> is_digit (digit_char d)"
proof -
  assume "d < 10"
  then have "d = 0 \<or> d = 1 \<or> d = 2 \<or> d = 3 \<or> d = 4 \<or> d = 5 \<or> d = 6 \<or> d = 7 \<or> d = 8 \<or> d = 9"
    by arith
  then show ?thesis by (auto simp add: digit_char_def is_digit_def)
qed

lemma dec_digits: "\<forall>c\<in>set (dec n). is_digit c"
proof (induction n rule: dec.induct)
  case (1 n)
  show ?case
  proof (cases "n < 10")
    case True
    then show ?thesis by (subst dec.simps) (simp add: digit_char_is_digit)
  next
    case False
    then show ?thesis using 1 by (subst dec.simps) (simp add: digit_char_is_digit)
  qed
qed

lemma dec_nonempty: "dec n \<noteq> []"
  by (subst dec.simps) simp

lemma frac_digits_digits: "\<forall>c\<in>set (frac_digits p m). is_digit c"
  by (induction p arbitrary: m) (simp_all add: digit_char_is_digit)

lemma length_frac_digits: "length (frac_digits p m) = p"
  by (induction p arbitrary: m) simp_all

lemma fmt_f_chars: "c \<in> set (fmt_f p x) \<Longrightarrow> is_digit c \<or> c = CHR ''-'' \<or> c = CHR ''.''"
  using dec_digits frac_digits_digits by (auto simp add: fmt_f_def Let_def)

lemma fmt_f_shape:
  "\<exists>sg ip fp. fmt_f p x = sg @ ip @ ''.'' @ fp \<and> (sg = [] \<or> sg = ''-'') \<and> ip \<noteq> []
     \<and> (\<forall>c\<in>set ip. is_digit c) \<and> length fp = p \<and> (\<forall>c\<in>set fp. is_digit c)"
proof -
  let ?q = "nat (round_half_even (\<bar>x\<bar> * 10 ^ p))"
  have "fmt_f p x = (if x < 0 then ''-'' else []) @ dec (?q div 10 ^ p) @ ''.'' @ frac_digits p (?q mod 10 ^ p)"
    by (simp add: fmt_f_def Let_def)
  moreover have "(if x < 0 then ''-'' else []) = [] \<or> (if x < 0 then ''-'' else []) = ''-''" by simp
  ultimately show ?thesis
    using dec_nonempty dec_digits frac_digits_digits length_frac_digits by blast
qed

lemma move_line_chars:
  assumes "c \<in> set (move_line (move_type_of line) p)"
  shows "c \<noteq> CHR ''F'' \<and> c \<noteq> CHR '';''"
proof -
  from assms have "c \<in> set ''G01 XYE\<newline>'' \<or> c \<in> set (fmt_f 5 (pX p)) \<or> c \<in> set (fmt_f 5 (pY p))
      \<or> c \<in> set (fmt_f 5 (pE p))"
    by (auto simp add: move_line_def move_type_of_def split: if_splits)
  then have "c \<in> set ''G01 XYE\<newline>'' \<or> is_digit c \<or> c = CHR ''-'' \<or> c = CHR ''.''"
    using fmt_f_chars by blast
  then show ?thesis by (auto simp add: is_digit_def)
qed

lemma move_type_of_cases: "move_type_of line = ''G0'' \<or> move_type_of line = ''G1''"
  by (simp add: move_type_of_def)

subsection \<open>The accumulator\<close>

lemma deposit_dist_nonneg: "deposit_dist p line = Some d \<Longrightarrow> 0 \<le> d"
  by (auto simp add: deposit_dist_def distance_xy_def split: if_splits)

lemma crossings_floor:
  assumes "deposit_dist (last_pos st) line = Some d" and "0 \<le> accumulated_distance st"
  shows "crossings st line = \<lfloor>(accumulated_distance st + d) / TRIGGER_DISTANCE_MM\<rfloor>"
proof -
  have "0 \<le> accumulated_distance st + d" using assms deposit_dist_nonneg by fastforce
  then show ?thesis using assms(1) by (simp add: crossings_def TRIGGER_DISTANCE_MM_def) linarith
qed

lemma crossings_none: "deposit_dist (last_pos st) line = None \<Longrightarrow> crossings st line = 0"
  by (simp add: crossings_def)

lemma crossings_nonneg: "0 \<le> accumulated_distance st \<Longrightarrow> 0 \<le> crossings st line"
proof (cases "deposit_dist (last_pos st) line")
  case None
  then show ?thesis by (simp add: crossings_none)
next
  case (Some d)
  assume a: "0 \<le> accumulated_distance st"
  have "0 \<le> accumulated_distance st + d" using a Some deposit_dist_nonneg by fastforce
  then show ?thesis using crossings_floor[OF Some a] by (simp add: TRIGGER_DISTANCE_MM_def)
qed

lemma thermal_no_deposit: "is_thermal line \<Longrightarrow> deposit_dist p line = None"
  by (simp add: deposit_dist_def)

lemma accumulated_distance_step:
  "accumulated_distance (process_line st line) =
     (case deposit_dist (last_pos st) line of
        None \<Rightarrow> accumulated_distance st
      | Some d \<Rightarrow> accumulated_distance st + d
          - real_of_int (crossings st line) * TRIGGER_DISTANCE_MM)"
proof (cases "deposit_dist (last_pos st) line")
  case None
  then show ?thesis
    by (cases "is_thermal line") (simp_all add: process_line_thermal process_line_verbatim)
next
  case (Some d)
  then show ?thesis by (simp add: process_line_depositing)
qed

lemma renewal_bounds:
  fixes a :: real
  assumes "0 \<le> a"
  shows "0 \<le> a - real_of_int \<lfloor>a / TRIGGER_DISTANCE_MM\<rfloor> * TRIGGER_DISTANCE_MM"
    and "a - real_of_int \<lfloor>a / TRIGGER_DISTANCE_MM\<rfloor> * TRIGGER_DISTANCE_MM < TRIGGER_DISTANCE_MM"
  by (simp_all add: TRIGGER_DISTANCE_MM_def) linarith+

lemma accumulator_invariant_step:
  assumes "0 \<le> accumulated_distance st" and "accumulated_distance st < TRIGGER_DISTANCE_MM"
  shows "0 \<le> accumulated_distance (process_line st line)
     \<and> accumulated_distance (process_line st line) < TRIGGER_DISTANCE_MM"
proof (cases "deposit_dist (last_pos st) line")
  case None
  then show ?thesis using assms by (simp add: accumulated_distance_step)
next
  case (Some d)
  have "0 \<le> accumulated_distance st + d" using assms(1) Some deposit_dist_nonneg by fastforce
  then show ?thesis
    using renewal_bounds[of "accumulated_distance st + d"] Some
    by (simp add: accumulated_distance_step crossings_floor[OF Some assms(1)])
qed

lemma accumulator_invariant_foldl:
  assumes "0 \<le> accumulated_distance st" and "accumulated_distance st < TRIGGER_DISTANCE_MM"
  shows "0 \<le> accumulated_distance (foldl process_line st lines)
     \<and> accumulated_distance (foldl process_line st lines) < TRIGGER_DISTANCE_MM"
  using assms
proof (induction lines arbitrary: st)
  case Nil
  then show ?case by simp
next
  case (Cons a lines)
  then show ?case using accumulator_invariant_step[of st a] by simp
qed

lemma accumulator_invariant_run:
  "0 \<le> accumulated_distance (run lines) \<and> accumulated_distance (run lines) < TRIGGER_DISTANCE_MM"
  unfolding run_def
  by (rule accumulator_invariant_foldl) (simp_all add: init_state_def TRIGGER_DISTANCE_MM_def)

lemma run_snoc: "run (lines @ [line]) = process_line (run lines) line"
  by (simp add: run_def)

lemma distance_xy_axis: "distance_xy (x1, y) (x2, y) = \<bar>x2 - x1\<bar>"
  by (simp add: distance_xy_def)

lemma last_pos_step:
  "last_pos (process_line st line) = (if is_thermal line then last_pos st else end_of (last_pos st) line)"
proof (cases "is_thermal line")
  case True
  then show ?thesis by (simp add: process_line_thermal)
next
  case False
  then show ?thesis
    by (cases "deposit_dist (last_pos st) line")
      (simp_all add: process_line_verbatim process_line_depositing)
qed

subsection \<open>Counting the pulses of a run\<close>

lemma fan_on_line_class: "\<not> is_thermal fan_on_line" "\<not> is_motion_e fan_on_line"
  by (simp_all add: is_thermal_def is_motion_e_def strip_def is_space_def
      temperature_re_match_def ci_prefix_def ascii_upper_def fan_on_line_def)

lemma move_line_not_fan_on: "move_line (move_type_of line) p \<noteq> fan_on_line"
  using move_type_of_cases[of line] by (auto simp add: move_line_def fan_on_line_def)

lemma actuator_lines_distinct: "dwell_line \<noteq> fan_on_line" "fan_off_line \<noteq> fan_on_line"
  by (simp_all add: dwell_line_def fan_on_line_def fan_off_line_def)

lemma count_pulse_lines:
  "count_list (concat (map (pulse_lines (move_type_of line)) segs)) fan_on_line = length segs"
  by (induction segs)
    (simp_all add: pulse_lines_def move_line_not_fan_on actuator_lines_distinct)

lemma count_emitted:
  assumes "0 \<le> accumulated_distance st"
  shows "count_list (emitted st line) fan_on_line
     = count_list [line] fan_on_line + nat (crossings st line)"
proof (cases "is_thermal line")
  case True
  then have "line \<noteq> fan_on_line" using fan_on_line_class by auto
  then show ?thesis using True by (simp add: emitted_thermal crossings_none thermal_no_deposit)
next
  case nt: False
  show ?thesis
  proof (cases "deposit_dist (last_pos st) line")
    case None
    then show ?thesis using nt by (simp add: emitted_verbatim crossings_none)
  next
    case (Some d)
    then have "is_motion_e line" by (simp add: deposit_dist_def split: if_splits)
    then have "line \<noteq> fan_on_line" using fan_on_line_class by auto
    then show ?thesis
      by (simp add: emitted_depositing[OF Some] count_pulse_lines move_line_not_fan_on
          length_segment_move)
  qed
qed

lemma stdout_step:
  "length (stdout (process_line st line)) = length (stdout st) + nat (crossings st line)"
proof (cases "is_thermal line")
  case True
  then show ?thesis by (simp add: process_line_thermal crossings_none thermal_no_deposit)
next
  case nt: False
  show ?thesis
  proof (cases "deposit_dist (last_pos st) line")
    case None
    then show ?thesis using nt by (simp add: process_line_verbatim crossings_none)
  next
    case (Some d)
    then show ?thesis by (simp add: process_line_depositing length_segment_move)
  qed
qed

lemma renewal_foldl:
  assumes "0 \<le> accumulated_distance st" and "accumulated_distance st < TRIGGER_DISTANCE_MM"
  shows "\<exists>n::nat.
      count_list (output_lines (foldl process_line st lines)) fan_on_line
        = count_list (output_lines st) fan_on_line + count_list lines fan_on_line + n
    \<and> length (stdout (foldl process_line st lines)) = length (stdout st) + n
    \<and> accumulated_distance (foldl process_line st lines) + real n * TRIGGER_DISTANCE_MM
        = accumulated_distance st + sum_list (deposit_dists st lines)"
  using assms
proof (induction lines arbitrary: st)
  case Nil
  then show ?case by simp
next
  case (Cons a lines)
  let ?st = "process_line st a"
  let ?k = "nat (crossings st a)"
  have inv: "0 \<le> accumulated_distance ?st" "accumulated_distance ?st < TRIGGER_DISTANCE_MM"
    using accumulator_invariant_step[OF Cons.prems] by blast+
  obtain n where n:
    "count_list (output_lines (foldl process_line ?st lines)) fan_on_line
        = count_list (output_lines ?st) fan_on_line + count_list lines fan_on_line + n"
    "length (stdout (foldl process_line ?st lines)) = length (stdout ?st) + n"
    "accumulated_distance (foldl process_line ?st lines) + real n * TRIGGER_DISTANCE_MM
        = accumulated_distance ?st + sum_list (deposit_dists ?st lines)"
    using Cons.IH[OF inv] by blast
  have k: "real ?k = real_of_int (crossings st a)"
    using crossings_nonneg[OF Cons.prems(1)] by simp
  have acc: "accumulated_distance ?st + real ?k * TRIGGER_DISTANCE_MM
      = accumulated_distance st + sum_list (case deposit_dist (last_pos st) a of Some d \<Rightarrow> [d] | None \<Rightarrow> [])"
    by (cases "deposit_dist (last_pos st) a") (simp_all add: accumulated_distance_step k crossings_none)
  have 1: "count_list (output_lines (foldl process_line st (a # lines))) fan_on_line
        = count_list (output_lines st) fan_on_line + count_list (a # lines) fan_on_line + (?k + n)"
    using n(1) count_emitted[OF Cons.prems(1), of a]
    by (simp add: output_lines_process_line)
  have 2: "length (stdout (foldl process_line st (a # lines))) = length (stdout st) + (?k + n)"
    using n(2) by (simp add: stdout_step)
  have 3: "accumulated_distance (foldl process_line st (a # lines)) + real (?k + n) * TRIGGER_DISTANCE_MM
        = accumulated_distance st + sum_list (deposit_dists st (a # lines))"
    using n(3) acc by (simp add: algebra_simps)
  from 1 2 3 show ?case by blast
qed

subsection \<open>The search of \<^verbatim>\<open>extract_coords\<close> and the number grammar\<close>

lemma rx_star_digits: "rx_match [(Star, is_digit)] s = Some (dropWhile is_digit s)"
  by (induction s) simp_all

lemma rx_plus_digits:
  "rx_match [(Plus, is_digit)] s =
     (case s of [] \<Rightarrow> None | c # cs \<Rightarrow> if is_digit c then Some (dropWhile is_digit cs) else None)"
  by (cases s) (simp_all add: rx_star_digits)

lemma not_digit_point: "\<not> is_digit CHR ''.''" "\<not> is_digit CHR ''-''"
  by (simp_all add: is_digit_def)

lemma rx_frac:
  "rx_match [(Opt, \<lambda>c. c = CHR ''.''), (Plus, is_digit)] s =
     (if frac_start s then Some (dropWhile is_digit (tl (tl s)))
      else case s of [] \<Rightarrow> None
           | c # cs \<Rightarrow> if is_digit c then Some (dropWhile is_digit cs) else None)"
proof (cases s)
  case Nil
  then show ?thesis by (simp add: frac_start_def)
next
  case (Cons c cs)
  show ?thesis
  proof (cases "c = CHR ''.''")
    case True
    have "rx_match [(Opt, \<lambda>c. c = CHR ''.''), (Plus, is_digit)] (CHR ''.'' # cs) =
      (case rx_match [(Plus, is_digit)] cs of Some r \<Rightarrow> Some r
       | None \<Rightarrow> rx_match [(Plus, is_digit)] (CHR ''.'' # cs))"
      by (simp del: rx_match.simps add: rx_match.simps(5))
    then show ?thesis using True Cons
      by (cases cs) (simp_all add: rx_plus_digits frac_start_def not_digit_point
          del: rx_match.simps)
  next
    case False
    have "rx_match [(Opt, \<lambda>c. c = CHR ''.''), (Plus, is_digit)] (c # cs) =
      rx_match [(Plus, is_digit)] (c # cs)"
      using False by (simp del: rx_match.simps add: rx_match.simps(5))
    then show ?thesis using False Cons
      by (simp add: rx_plus_digits frac_start_def del: rx_match.simps)
  qed
qed

lemma frac_start_tail:
  "frac_start (c # cs) \<Longrightarrow> dropWhile is_digit (tl cs) = dropWhile is_digit cs"
  by (cases cs) (simp_all add: frac_start_def)

lemma rx_unsigned:
  "rx_match [(Star, is_digit), (Opt, \<lambda>c. c = CHR ''.''), (Plus, is_digit)] s = unsigned_rest s"
proof (induction s)
  case Nil
  have "rx_match [(Star, is_digit), (Opt, \<lambda>c. c = CHR ''.''), (Plus, is_digit)] [] = None"
    by simp
  then show ?case by (simp add: unsigned_rest_def frac_start_def del: rx_match.simps)
next
  case (Cons c cs)
  let ?p = "[(Opt, \<lambda>c. c = CHR ''.''), (Plus, is_digit)]"
  show ?case
  proof (cases "is_digit c")
    case True
    have u: "rx_match ((Star, is_digit) # ?p) (c # cs) =
      (case unsigned_rest cs of Some r \<Rightarrow> Some r | None \<Rightarrow> rx_match ?p (c # cs))"
      using True by (simp del: rx_match.simps add: rx_match.simps(7) Cons.IH)
    have nf: "\<not> frac_start (c # cs)" using True not_digit_point by (auto simp add: frac_start_def)
    have fb: "rx_match ?p (c # cs) = Some (dropWhile is_digit cs)"
      using True nf by (simp add: rx_frac del: rx_match.simps)
    show ?thesis
    proof (cases "unsigned_rest cs")
      case None
      then have f: "\<not> frac_start (dropWhile is_digit cs)" and e: "takeWhile is_digit cs = []"
        by (auto simp add: unsigned_rest_def Let_def split: if_splits)
      show ?thesis using True None f u fb
        by (simp add: unsigned_rest_def del: rx_match.simps)
    next
      case (Some r)
      then show ?thesis using True u
        by (auto simp add: unsigned_rest_def Let_def simp del: rx_match.simps split: if_splits)
    qed
  next
    case False
    have u: "rx_match ((Star, is_digit) # ?p) (c # cs) = rx_match ?p (c # cs)"
      using False by (simp del: rx_match.simps add: rx_match.simps(7))
    show ?thesis using False frac_start_tail[of c cs]
      by (simp add: u rx_frac unsigned_rest_def del: rx_match.simps)
  qed
qed

lemma unsigned_rest_minus: "unsigned_rest (CHR ''-'' # s) = None"
  by (simp add: unsigned_rest_def frac_start_def not_digit_point)

lemma rx_number: "rx_match number_rx s = number_rest s"
proof (cases s)
  case Nil
  then show ?thesis by (simp add: number_rx_def number_rest_def)
next
  case (Cons c cs)
  let ?p = "[(Star, is_digit), (Opt, \<lambda>c. c = CHR ''.''), (Plus, is_digit)]"
  show ?thesis
  proof (cases "c = CHR ''-''")
    case True
    have "rx_match ((Opt, \<lambda>c. c = CHR ''-'') # ?p) (CHR ''-'' # cs) =
      (case rx_match ?p cs of Some r \<Rightarrow> Some r | None \<Rightarrow> rx_match ?p (CHR ''-'' # cs))"
      by (simp del: rx_match.simps add: rx_match.simps(5))
    then show ?thesis using True Cons
      by (simp add: number_rx_def rx_unsigned number_rest_def unsigned_rest_minus
          del: rx_match.simps split: option.splits)
  next
    case False
    have "rx_match ((Opt, \<lambda>c. c = CHR ''-'') # ?p) (c # cs) = rx_match ?p (c # cs)"
      using False by (simp del: rx_match.simps add: rx_match.simps(5))
    then show ?thesis using False Cons
      by (simp add: number_rx_def rx_unsigned number_rest_def del: rx_match.simps)
  qed
qed

lemma spec_unsigned_digits: "n \<noteq> [] \<Longrightarrow> \<forall>c\<in>set n. is_digit c \<Longrightarrow> spec_unsigned n"
proof -
  assume a: "n \<noteq> []" "\<forall>c\<in>set n. is_digit c"
  have d: "dropWhile is_digit n = []" using a(2) by simp
  show ?thesis unfolding spec_unsigned_def d using a(1) by simp
qed

lemma spec_unsigned_dotted:
  assumes "\<forall>c\<in>set ip. is_digit c" and "fs \<noteq> []" and "\<forall>c\<in>set fs. is_digit c"
  shows "spec_unsigned (ip @ CHR ''.'' # fs)"
proof -
  have "dropWhile is_digit (ip @ CHR ''.'' # fs) = CHR ''.'' # fs"
    using assms(1) not_digit_point(1) by simp
  then show ?thesis using assms(2,3) by (simp add: spec_unsigned_def list_all_iff)
qed

lemma spec_unsigned_cases:
  assumes "spec_unsigned n"
  shows "(n \<noteq> [] \<and> (\<forall>c\<in>set n. is_digit c))
     \<or> (\<exists>ip fs. n = ip @ CHR ''.'' # fs \<and> (\<forall>c\<in>set ip. is_digit c) \<and> fs \<noteq> []
           \<and> (\<forall>c\<in>set fs. is_digit c))"
proof (cases "dropWhile is_digit n")
  case Nil
  then have "\<forall>c\<in>set n. is_digit c" by simp
  moreover have "n \<noteq> []" using assms Nil by (simp add: spec_unsigned_def)
  ultimately show ?thesis by blast
next
  case (Cons c fs)
  then have c: "c = CHR ''.''" "fs \<noteq> []" "\<forall>c\<in>set fs. is_digit c"
    using assms by (simp_all add: spec_unsigned_def list_all_iff)
  have "takeWhile is_digit n @ dropWhile is_digit n = n" by simp
  then have "n = takeWhile is_digit n @ CHR ''.'' # fs" using Cons c(1) by simp
  moreover have "\<forall>c\<in>set (takeWhile is_digit n). is_digit c" using set_takeWhileD by fastforce
  ultimately show ?thesis using c(2,3) by blast
qed

lemma digits_prefix_length:
  "prefix n u \<Longrightarrow> \<forall>c\<in>set n. is_digit c \<Longrightarrow> length n \<le> length (takeWhile is_digit u)"
proof (induction n arbitrary: u)
  case Nil
  then show ?case by simp
next
  case (Cons a n)
  from Cons.prems(1) obtain u' where u: "u = a # u'" "prefix n u'" by (cases u) auto
  then show ?case using Cons by simp
qed

lemma dotted_prefix:
  assumes "prefix (ip @ CHR ''.'' # fs) u" and "\<forall>c\<in>set ip. is_digit c" and "fs \<noteq> []"
    and "\<forall>c\<in>set fs. is_digit c"
  shows "takeWhile is_digit u = ip \<and> frac_start (dropWhile is_digit u)
     \<and> length fs \<le> length (takeWhile is_digit (tl (dropWhile is_digit u)))"
proof -
  obtain rest where u: "u = ip @ CHR ''.'' # fs @ rest" using assms(1) by (auto simp add: prefix_def)
  have t: "takeWhile is_digit u = ip"
    using assms(2) not_digit_point(1) by (simp add: u)
  have d: "dropWhile is_digit u = CHR ''.'' # fs @ rest"
    using assms(2) not_digit_point(1) by (simp add: u)
  obtain f fs' where f: "fs = f # fs'" using assms(3) by (cases fs) auto
  then have "is_digit f" using assms(4) by simp
  then have fr: "frac_start (dropWhile is_digit u)" by (simp add: d f frac_start_def)
  have "takeWhile is_digit (fs @ rest) = fs @ takeWhile is_digit rest"
    using assms(4) by simp
  then have "length fs \<le> length (takeWhile is_digit (tl (dropWhile is_digit u)))"
    by (simp add: d)
  with t fr show ?thesis by blast
qed

lemma frac_start_decomp:
  "frac_start r \<Longrightarrow> r = CHR ''.'' # tl r \<and> takeWhile is_digit (tl r) \<noteq> []"
  by (cases r; cases "tl r") (auto simp add: frac_start_def)

lemma unsigned_rest_Some:
  assumes "unsigned_rest u = Some r"
  shows "\<exists>num. u = num @ r \<and> spec_unsigned num
     \<and> (\<forall>n. prefix n u \<and> spec_unsigned n \<longrightarrow> length n \<le> length num)"
proof -
  let ?ds = "takeWhile is_digit u" and ?r = "dropWhile is_digit u"
  have dsd: "\<forall>c\<in>set ?ds. is_digit c" using set_takeWhileD by fastforce
  show ?thesis
  proof (cases "frac_start ?r")
    case True
    let ?fs = "takeWhile is_digit (tl ?r)"
    let ?num = "?ds @ CHR ''.'' # ?fs"
    from True have r: "r = dropWhile is_digit (tl ?r)" using assms by (simp add: unsigned_rest_def)
    have fd: "?r = CHR ''.'' # tl ?r" "?fs \<noteq> []" using frac_start_decomp[OF True] by blast+
    have "?ds @ ?r = u" by simp
    then have "?ds @ CHR ''.'' # tl ?r = u" using fd(1) by simp
    moreover have "?fs @ dropWhile is_digit (tl ?r) = tl ?r" by simp
    ultimately have 1: "u = ?num @ r" by (simp add: r)
    have fsd: "\<forall>c\<in>set ?fs. is_digit c" using set_takeWhileD by fastforce
    have 2: "spec_unsigned ?num" using dsd fd(2) fsd by (rule spec_unsigned_dotted)
    have 3: "length n \<le> length ?num" if n: "prefix n u" "spec_unsigned n" for n
      using spec_unsigned_cases[OF n(2)]
    proof
      assume "n \<noteq> [] \<and> (\<forall>c\<in>set n. is_digit c)"
      then have "length n \<le> length ?ds" using n(1) digits_prefix_length by blast
      then show ?thesis by simp
    next
      assume "\<exists>ip fs. n = ip @ CHR ''.'' # fs \<and> (\<forall>c\<in>set ip. is_digit c) \<and> fs \<noteq> []
           \<and> (\<forall>c\<in>set fs. is_digit c)"
      then obtain ip fs where i: "n = ip @ CHR ''.'' # fs" "\<forall>c\<in>set ip. is_digit c" "fs \<noteq> []"
        "\<forall>c\<in>set fs. is_digit c" by blast
      have "prefix (ip @ CHR ''.'' # fs) u" using n(1) i(1) by simp
      then have "?ds = ip \<and> length fs \<le> length ?fs"
        using dotted_prefix[OF _ i(2,3,4)] by blast
      then show ?thesis by (simp add: i(1))
    qed
    from 1 2 3 show ?thesis by blast
  next
    case False
    then have ne: "?ds \<noteq> []" and r: "r = ?r"
      using assms by (auto simp add: unsigned_rest_def split: if_splits)
    have 1: "u = ?ds @ r" by (simp add: r)
    have 2: "spec_unsigned ?ds" using ne dsd by (rule spec_unsigned_digits)
    have 3: "length n \<le> length ?ds" if n: "prefix n u" "spec_unsigned n" for n
      using spec_unsigned_cases[OF n(2)]
    proof
      assume "n \<noteq> [] \<and> (\<forall>c\<in>set n. is_digit c)"
      then show ?thesis using n(1) digits_prefix_length by blast
    next
      assume "\<exists>ip fs. n = ip @ CHR ''.'' # fs \<and> (\<forall>c\<in>set ip. is_digit c) \<and> fs \<noteq> []
           \<and> (\<forall>c\<in>set fs. is_digit c)"
      then obtain ip fs where i: "n = ip @ CHR ''.'' # fs" "\<forall>c\<in>set ip. is_digit c" "fs \<noteq> []"
        "\<forall>c\<in>set fs. is_digit c" by blast
      have "prefix (ip @ CHR ''.'' # fs) u" using n(1) i(1) by simp
      then have "frac_start ?r" using dotted_prefix[OF _ i(2,3,4)] by blast
      with False show ?thesis by simp
    qed
    from 1 2 3 show ?thesis by blast
  qed
qed

lemma unsigned_rest_None:
  assumes "unsigned_rest u = None" and "prefix n u"
  shows "\<not> spec_unsigned n"
proof
  assume s: "spec_unsigned n"
  let ?ds = "takeWhile is_digit u" and ?r = "dropWhile is_digit u"
  from assms(1) have f: "\<not> frac_start ?r" and e: "?ds = []"
    by (auto simp add: unsigned_rest_def Let_def split: if_splits)
  from spec_unsigned_cases[OF s] show False
  proof
    assume a: "n \<noteq> [] \<and> (\<forall>c\<in>set n. is_digit c)"
    then have "length n \<le> length ?ds" using assms(2) digits_prefix_length by blast
    with e a show False by simp
  next
    assume "\<exists>ip fs. n = ip @ CHR ''.'' # fs \<and> (\<forall>c\<in>set ip. is_digit c) \<and> fs \<noteq> []
           \<and> (\<forall>c\<in>set fs. is_digit c)"
    then obtain ip fs where i: "n = ip @ CHR ''.'' # fs" "\<forall>c\<in>set ip. is_digit c" "fs \<noteq> []"
      "\<forall>c\<in>set fs. is_digit c" by blast
    have "prefix (ip @ CHR ''.'' # fs) u" using assms(2) i(1) by simp
    then have "frac_start ?r" using dotted_prefix[OF _ i(2,3,4)] by blast
    with f show False by simp
  qed
qed

lemma spec_number_minus: "spec_number (CHR ''-'' # n) = spec_unsigned n"
  by (simp add: spec_number_def)

lemma spec_number_other: "c \<noteq> CHR ''-'' \<Longrightarrow> spec_number (c # n) = spec_unsigned (c # n)"
  by (simp add: spec_number_def)

lemma number_rest_Some:
  assumes "number_rest s = Some r"
  shows "\<exists>num. s = num @ r \<and> spec_number num
     \<and> (\<forall>n. prefix n s \<and> spec_number n \<longrightarrow> length n \<le> length num)"
proof (cases s)
  case Nil
  then show ?thesis using assms by (simp add: number_rest_def)
next
  case (Cons c s')
  show ?thesis
  proof (cases "c = CHR ''-''")
    case True
    then have "unsigned_rest s' = Some r" using assms Cons by (simp add: number_rest_def)
    then obtain num where num: "s' = num @ r" "spec_unsigned num"
      "\<forall>n. prefix n s' \<and> spec_unsigned n \<longrightarrow> length n \<le> length num"
      using unsigned_rest_Some by blast
    have 1: "s = (CHR ''-'' # num) @ r" using Cons True num(1) by simp
    have 2: "spec_number (CHR ''-'' # num)" using num(2) by (simp add: spec_number_minus)
    have 3: "length n \<le> length (CHR ''-'' # num)" if n: "prefix n s" "spec_number n" for n
    proof (cases n)
      case Nil
      then show ?thesis by simp
    next
      case (Cons a n')
      then have "a = CHR ''-''" "prefix n' s'" using n(1) \<open>s = c # s'\<close> True by auto
      moreover then have "spec_unsigned n'" using n(2) Cons by (simp add: spec_number_minus)
      ultimately have "length n' \<le> length num" using num(3) by blast
      then show ?thesis using Cons by simp
    qed
    from 1 2 3 show ?thesis by blast
  next
    case False
    then have "unsigned_rest s = Some r" using assms Cons by (simp add: number_rest_def)
    then obtain num where num: "s = num @ r" "spec_unsigned num"
      "\<forall>n. prefix n s \<and> spec_unsigned n \<longrightarrow> length n \<le> length num"
      using unsigned_rest_Some by blast
    have "num \<noteq> []" using num(2) by (auto simp add: spec_unsigned_def)
    then obtain num' where "num = c # num'" using num(1) Cons by (cases num) auto
    then have 2: "spec_number num" using num(2) False by (simp add: spec_number_other)
    have 3: "length n \<le> length num" if n: "prefix n s" "spec_number n" for n
    proof (cases n)
      case Nil
      then show ?thesis by simp
    next
      case (Cons a n')
      then have "a = c" using n(1) \<open>s = c # s'\<close> by auto
      then have "spec_unsigned n" using n(2) Cons False by (simp add: spec_number_other)
      then show ?thesis using n(1) num(3) by blast
    qed
    from num(1) 2 3 show ?thesis by blast
  qed
qed

lemma number_rest_None:
  assumes "number_rest s = None"
  shows "\<not> has_number s"
proof
  assume "has_number s"
  then obtain n where n: "prefix n s" "spec_number n" by (auto simp add: has_number_def)
  then obtain a n' where a: "n = a # n'" by (cases n) (auto simp add: spec_number_def)
  then obtain s' where s: "s = a # s'" "prefix n' s'" using n(1) by (cases s) auto
  show False
  proof (cases "a = CHR ''-''")
    case True
    then have "unsigned_rest s' = None" using assms s(1) by (simp add: number_rest_def)
    then have "\<not> spec_unsigned n'" using s(2) by (rule unsigned_rest_None)
    then show False using n(2) a True by (simp add: spec_number_minus)
  next
    case False
    then have "unsigned_rest s = None" using assms s(1) by (simp add: number_rest_def)
    then have "\<not> spec_unsigned n" using n(1) by (rule unsigned_rest_None)
    then show False using n(2) a False by (simp add: spec_number_other)
  qed
qed

lemma re_search_None:
  "re_search axis line = None \<Longrightarrow> line = pre @ axis # post \<Longrightarrow> \<not> has_number post"
proof (induction line arbitrary: pre)
  case Nil
  then show ?case by simp
next
  case (Cons c cs)
  show ?case
  proof (cases pre)
    case Nil
    then have "c = axis" "cs = post" using Cons.prems(2) by simp_all
    then have "number_rest post = None"
      using Cons.prems(1) by (simp add: rx_number split: option.splits)
    then show ?thesis by (rule number_rest_None)
  next
    case (Cons a pre')
    then have cs: "cs = pre' @ axis # post" using Cons.prems(2) by simp
    have "re_search axis cs = None"
      using Cons.prems(1) by (simp add: rx_number split: if_splits option.splits)
    then show ?thesis using cs Cons.IH by blast
  qed
qed

lemma re_search_Some:
  "re_search axis line = Some num \<Longrightarrow>
   \<exists>pre rest. line = pre @ axis # num @ rest \<and> spec_number num
     \<and> (\<forall>n. prefix n (num @ rest) \<and> spec_number n \<longrightarrow> length n \<le> length num)
     \<and> (\<forall>pre' post'. line = pre' @ axis # post' \<and> length pre' < length pre
           \<longrightarrow> \<not> has_number post')"
proof (induction line)
  case Nil
  then show ?case by simp
next
  case (Cons c cs)
  show ?case
  proof (cases "c = axis \<and> number_rest cs \<noteq> None")
    case True
    then obtain r where r: "number_rest cs = Some r" by auto
    then have num: "num = take (length cs - length r) cs"
      using Cons.prems True by (simp add: rx_number)
    obtain m where m: "cs = m @ r" "spec_number m"
      "\<forall>n. prefix n cs \<and> spec_number n \<longrightarrow> length n \<le> length m"
      using number_rest_Some[OF r] by blast
    have "num = m" using num m(1) by simp
    then have "c # cs = [] @ axis # num @ r \<and> spec_number num
     \<and> (\<forall>n. prefix n (num @ r) \<and> spec_number n \<longrightarrow> length n \<le> length num)
     \<and> (\<forall>pre' post'. c # cs = pre' @ axis # post' \<and> length pre' < length ([]::string)
           \<longrightarrow> \<not> has_number post')"
      using m True by simp
    then show ?thesis by blast
  next
    case False
    then have s: "re_search axis cs = Some num"
      using Cons.prems by (auto simp add: rx_number split: if_splits option.splits)
    then obtain pre rest where p: "cs = pre @ axis # num @ rest" "spec_number num"
      "\<forall>n. prefix n (num @ rest) \<and> spec_number n \<longrightarrow> length n \<le> length num"
      "\<forall>pre' post'. cs = pre' @ axis # post' \<and> length pre' < length pre \<longrightarrow> \<not> has_number post'"
      using Cons.IH by blast
    have f: "\<not> has_number post'"
      if q: "c # cs = pre' @ axis # post'" "length pre' < length (c # pre)" for pre' post'
    proof (cases pre')
      case Nil
      then have "c = axis" "cs = post'" using q(1) by simp_all
      then have "number_rest post' = None" using False by simp
      then show ?thesis by (rule number_rest_None)
    next
      case (Cons a pre'')
      then have "cs = pre'' @ axis # post'" "length pre'' < length pre" using q by simp_all
      then show ?thesis using p(4) by blast
    qed
    have "c # cs = (c # pre) @ axis # num @ rest" using p(1) by simp
    then show ?thesis using p(2,3) f by blast
  qed
qed

subsection \<open>Evaluation on concrete lines\<close>

lemmas classify_eval = is_thermal_def is_motion_e_def strip_def is_space_def
  temperature_re_match_def ci_prefix_def ascii_upper_def

lemmas coords_eval = end_of_def strip_def is_space_def extract_coords_def number_rx_def
  is_digit_def float_of_def unsigned_val_def digits_val_def digit_val_def pos_update_def

lemma frac_digits_5:
  "frac_digits 5 m = [digit_char (m div 10 div 10 div 10 div 10 mod 10),
     digit_char (m div 10 div 10 div 10 mod 10), digit_char (m div 10 div 10 mod 10),
     digit_char (m div 10 mod 10), digit_char (m mod 10)]"
proof -
  have "frac_digits (Suc (Suc (Suc (Suc (Suc 0))))) m =
    [digit_char (m div 10 div 10 div 10 div 10 mod 10),
     digit_char (m div 10 div 10 div 10 mod 10), digit_char (m div 10 div 10 mod 10),
     digit_char (m div 10 mod 10), digit_char (m mod 10)]"
    by simp
  moreover have "(5::nat) = Suc (Suc (Suc (Suc (Suc 0))))" by simp
  ultimately show ?thesis by (simp only:)
qed

lemmas fmt_eval = move_line_def fmt_f_def round_half_even_def frac_digits_5 dec.simps digit_char_def Let_def

lemmas deposit_eval = deposit_dist_def is_thermal_def is_motion_e_def temperature_re_match_def
  ci_prefix_def ascii_upper_def distance_xy_def

text \<open>Two depositing moves along the X axis, of 0.5 and 1.75 units.\<close>

lemma example_first_move:
  "deposit_dist (last_pos init_state) ''G1 X0.5 E1\<newline>'' = Some (1 / 2)"
  "last_pos (process_line init_state ''G1 X0.5 E1\<newline>'')
     = \<lparr> pX = 1 / 2, pY = 0, pE = 1, pF = None \<rparr>"
proof -
  let ?l1 = "''G1 X0.5 E1\<newline>''"
  have s1: "strip ?l1 = ''G1 X0.5 E1''" by (simp add: strip_def is_space_def)
  have e1: "end_of (last_pos init_state) ?l1 = \<lparr> pX = 1 / 2, pY = 0, pE = 1, pF = None \<rparr>"
    by (simp add: init_state_def coords_eval)
  show "deposit_dist (last_pos init_state) ?l1 = Some (1 / 2)"
    by (simp add: deposit_eval e1 s1) (simp add: init_state_def)
  have nt: "\<not> is_thermal ?l1" by (simp add: classify_eval)
  show "last_pos (process_line init_state ?l1) = \<lparr> pX = 1 / 2, pY = 0, pE = 1, pF = None \<rparr>"
    by (simp add: last_pos_step nt e1)
qed

lemma example_second_move:
  "deposit_dist \<lparr> pX = 1 / 2, pY = 0, pE = 1, pF = None \<rparr> ''G1 X2.25 E2\<newline>'' = Some (7 / 4)"
proof -
  let ?l2 = "''G1 X2.25 E2\<newline>''"
  have e2: "end_of \<lparr> pX = 1 / 2, pY = 0, pE = 1, pF = None \<rparr> ?l2
      = \<lparr> pX = 9 / 4, pY = 0, pE = 2, pF = None \<rparr>"
    by (simp add: coords_eval)
  show ?thesis
    by (simp add: deposit_dist_def e2 distance_xy_axis) (simp add: classify_eval)
qed

lemma example_single_move:
  "deposit_dist (last_pos init_state) ''G1 X2.25 E1\<newline>'' = Some (9 / 4)"
proof -
  let ?l = "''G1 X2.25 E1\<newline>''"
  have e: "end_of (last_pos init_state) ?l = \<lparr> pX = 9 / 4, pY = 0, pE = 1, pF = None \<rparr>"
    by (simp add: init_state_def coords_eval)
  show ?thesis
    by (simp add: deposit_dist_def e) (simp add: classify_eval init_state_def distance_xy_axis)
qed

lemma process_gcode_single: "process_gcode [l] = emitted init_state l"
  by (simp add: process_gcode_def run_def output_lines_process_line) (simp add: init_state_def)

lemma actuator_lines_text:
  "fan_on_line = ''M106 S255 ; ON\<newline>''" "dwell_line = ''G4 P200 ; Wait\<newline>''"
  "fan_off_line = ''M107 ; OFF\<newline>''"
  by (simp_all add: fan_on_line_def dwell_line_def fan_off_line_def str_int_def
      FAN_ON_TIME_MS_def dec.simps digit_char_def)

lemma unit_move_emitted:
  assumes "deposit_dist (last_pos init_state) l = Some 1"
    and "end_of (last_pos init_state) l = \<lparr> pX = 1, pY = 0, pE = 1, pF = None \<rparr>"
  shows "emitted init_state l =
     [move_type_of l @ '' X1.00000 Y0.00000 E1.00000\<newline>'', ''M106 S255 ; ON\<newline>'',
      ''G4 P200 ; Wait\<newline>'', ''M107 ; OFF\<newline>'',
      move_type_of l @ '' X1.00000 Y0.00000 E1.00000\<newline>'']"
proof -
  have c: "crossings init_state l = 1"
    by (simp add: crossings_def assms(1)) (simp add: init_state_def TRIGGER_DISTANCE_MM_def)
  have g: "segment_move (last_pos init_state) \<lparr> pX = 1, pY = 0, pE = 1, pF = None \<rparr> 1
      = [\<lparr> pX = 1, pY = 0, pE = 1, pF = None \<rparr>]"
    by (simp add: segment_move_def interpolate_def init_state_def)
  have m: "move_line mt \<lparr> pX = 1, pY = 0, pE = 1, pF = None \<rparr>
      = mt @ '' X1.00000 Y0.00000 E1.00000\<newline>''" for mt
    by (simp add: fmt_eval)
  show ?thesis
    by (simp add: emitted_depositing[OF assms(1)] c assms(2) g m pulse_lines_def
        actuator_lines_text)
qed

subsection \<open>The loop in double precision, evaluated\<close>

text \<open>With the identity for the rounding, the second loop is the first.\<close>

lemma process_line_fl_exact: "process_line_fl (\<lambda>x. x) st line = process_line st line"
proof -
  have e: "extract_coords_fl (\<lambda>x. x) l = extract_coords l" for l
    by (rule ext) (simp add: extract_coords_fl_def option.map_ident)
  have d: "distance_xy_fl (\<lambda>x. x) p q = distance_xy p q" for p q
    by (simp add: distance_xy_fl_def distance_xy_def)
  have s: "segment_move_fl (\<lambda>x. x) a b n = segment_move a b n" for a b n
    by (simp add: segment_move_fl_def segment_move_def interpolate_fl_def interpolate_def)
  have p: "pulse_step_fl (\<lambda>x. x) mt = pulse_step mt" for mt
    by (rule ext, rule ext) (simp add: pulse_step_fl_def pulse_step_def)
  show ?thesis
    by (simp only: process_line_fl_def process_line_def e d s p)
qed

lemma double_eval:
  assumes "2 ^ 52 \<le> \<bar>x\<bar> * 2 ^ k" and "\<bar>x\<bar> * 2 ^ k < 2 ^ 53"
  shows "double x = real_of_int (round_half_even (x * 2 ^ k)) / 2 ^ k"
proof -
  have x0: "x \<noteq> 0" using assms(1) by auto
  then have ax: "0 < \<bar>x\<bar>" by simp
  have r: "real_of_int (52 - int k) = 52 - real k" "real_of_int (52 - int k + 1) = 53 - real k"
    by simp_all
  have p1: "(2::real) powr (52 - real k) = 2 ^ 52 / 2 ^ k"
    by (simp add: powr_diff powr_realpow flip: powr_numeral)
  have p2: "(2::real) powr (53 - real k) = 2 ^ 53 / 2 ^ k"
    by (simp add: powr_diff powr_realpow flip: powr_numeral)
  have l: "(2::real) ^ 52 / 2 ^ k \<le> \<bar>x\<bar>" using assms(1) by (simp add: field_simps)
  have u: "\<bar>x\<bar> < (2::real) ^ 53 / 2 ^ k" using assms(2) by (simp add: field_simps)
  have "2 powr (real_of_int (52 - int k)) \<le> \<bar>x\<bar> \<and> \<bar>x\<bar> < 2 powr (real_of_int (52 - int k + 1))"
    using l u by (simp only: r p1 p2)
  then have e: "\<lfloor>log 2 \<bar>x\<bar>\<rfloor> = 52 - int k"
    using floor_log_eq_powr_iff[of "\<bar>x\<bar>" 2 "52 - int k"] ax by simp
  have q1: "(2::real) powr (52 - real_of_int (52 - int k)) = 2 ^ k"
    by (simp add: powr_realpow)
  have q2: "(2::real) powr (real_of_int (52 - int k) - 52) = 1 / 2 ^ k"
    by (simp add: powr_minus_divide powr_realpow)
  show ?thesis using x0 by (simp add: double_def e q1 q2 Let_def del: of_int_diff)
qed

text \<open>
  The doubles of a run of three moves along the X axis, to 0.2, 0.9 and 1.0: the parsed
  coordinates, the differences \<open>0.9 - 0.2\<close> and \<open>1.0 - 0.9\<close> and the two sums of the
  accumulator. Two of the roundings are ties, which go to the even significand.
\<close>

lemma double_0: "double 0 = 0"
  by (simp add: double_def)

lemma double_1: "double 1 = 1"
  by (subst double_eval[where k = 52]) (simp_all add: round_half_even_def Let_def)

lemma double_2: "double 2 = 2"
  by (subst double_eval[where k = 51]) (simp_all add: round_half_even_def Let_def)

lemma double_3: "double 3 = 3"
  by (subst double_eval[where k = 51]) (simp_all add: round_half_even_def Let_def)

lemma double_fifth: "double (1 / 5) = 3602879701896397 / 18014398509481984"
  by (subst double_eval[where k = 55]) (simp_all add: round_half_even_def Let_def)

lemma double_nine_tenths: "double (9 / 10) = 8106479329266893 / 9007199254740992"
  by (subst double_eval[where k = 53]) (simp_all add: round_half_even_def Let_def)

lemma double_first: "double (3602879701896397 / 18014398509481984) = 3602879701896397 / 18014398509481984"
  by (subst double_eval[where k = 55]) (simp_all add: round_half_even_def Let_def)

lemma double_second:
  "double (12610078956637389 / 18014398509481984) = 3152519739159347 / 4503599627370496"
  "double (3152519739159347 / 4503599627370496) = 3152519739159347 / 4503599627370496"
  by (subst double_eval[where k = 53], simp_all add: round_half_even_def Let_def)+

lemma double_sum_two:
  "double (16212958658533785 / 18014398509481984) = 2026619832316723 / 2251799813685248"
  by (subst double_eval[where k = 53]) (simp_all add: round_half_even_def Let_def)

lemma double_third:
  "double (900719925474099 / 9007199254740992) = 900719925474099 / 9007199254740992"
  by (subst double_eval[where k = 56]) (simp_all add: round_half_even_def Let_def)

lemma double_sum_three:
  "double (9007199254740991 / 9007199254740992) = 9007199254740991 / 9007199254740992"
  by (subst double_eval[where k = 53]) (simp_all add: round_half_even_def Let_def)

lemma process_line_fl_below:
  assumes "\<not> is_thermal line" and "is_motion_e line"
    and "pos_update (last_pos st) (extract_coords_fl fl (strip line)) = e"
    and "pE e > pE (last_pos st)"
    and "fl (accumulated_distance st
           + distance_xy_fl fl (pX (last_pos st), pY (last_pos st)) (pX e, pY e)) = a"
    and "a < TRIGGER_DISTANCE_MM"
  shows "process_line_fl fl st line =
     st \<lparr> accumulated_distance := a,
          output_lines := output_lines st @ [move_line (move_type_of line) e],
          last_pos := e \<rparr>"
  using assms
  by (simp add: process_line_fl_def is_thermal_def is_motion_e_def Let_def move_type_of_def)

lemma distance_xy_fl_axis:
  "distance_xy_fl fl (x1, y) (x2, y) = fl \<bar>fl (x2 - x1)\<bar>" if "fl 0 = 0"
  using that by (simp add: distance_xy_fl_def)

lemma coords_fl:
  "pos_update p (extract_coords_fl fl s) =
     \<lparr> pX = (case extract_coords s CHR ''X'' of Some v \<Rightarrow> fl v | None \<Rightarrow> pX p),
       pY = (case extract_coords s CHR ''Y'' of Some v \<Rightarrow> fl v | None \<Rightarrow> pY p),
       pE = (case extract_coords s CHR ''E'' of Some v \<Rightarrow> fl v | None \<Rightarrow> pE p),
       pF = (case extract_coords s CHR ''F'' of Some v \<Rightarrow> Some (fl v) | None \<Rightarrow> pF p) \<rparr>"
  by (simp add: pos_update_def extract_coords_fl_def split: option.splits)

lemmas extract_eval = extract_coords_def number_rx_def is_digit_def float_of_def unsigned_val_def
  digits_val_def digit_val_def

lemma drift_lines_coords:
  "extract_coords ''G1 X0.2 E1'' = [CHR ''X'' \<mapsto> 1 / 5, CHR ''E'' \<mapsto> 1]"
  "extract_coords ''G1 X0.9 E2'' = [CHR ''X'' \<mapsto> 9 / 10, CHR ''E'' \<mapsto> 2]"
  "extract_coords ''G1 X1.0 E3'' = [CHR ''X'' \<mapsto> 1, CHR ''E'' \<mapsto> 3]"
  by (rule ext, simp add: extract_eval)+

lemma drift_run:
  "run_fl double [''G1 X0.2 E1\<newline>'', ''G1 X0.9 E2\<newline>'', ''G1 X1.0 E3\<newline>''] =
     \<lparr> output_lines = [''G1 X0.20000 Y0.00000 E1.00000\<newline>'',
         ''G1 X0.90000 Y0.00000 E2.00000\<newline>'', ''G1 X1.00000 Y0.00000 E3.00000\<newline>''],
       last_pos = \<lparr> pX = 1, pY = 0, pE = 3, pF = None \<rparr>,
       accumulated_distance = 9007199254740991 / 9007199254740992,
       stdout = [] \<rparr>"
proof -
  let ?l1 = "''G1 X0.2 E1\<newline>''" and ?l2 = "''G1 X0.9 E2\<newline>''" and ?l3 = "''G1 X1.0 E3\<newline>''"
  let ?a = "3602879701896397 / 18014398509481984 :: real"
  let ?b = "8106479329266893 / 9007199254740992 :: real"
  let ?s2 = "2026619832316723 / 2251799813685248 :: real"
  let ?s3 = "9007199254740991 / 9007199254740992 :: real"
  let ?o1 = "''G1 X0.20000 Y0.00000 E1.00000\<newline>''"
  let ?o2 = "''G1 X0.90000 Y0.00000 E2.00000\<newline>''"
  let ?o3 = "''G1 X1.00000 Y0.00000 E3.00000\<newline>''"
  let ?st1 = "\<lparr> output_lines = [?o1], last_pos = \<lparr> pX = ?a, pY = 0, pE = 1, pF = None \<rparr>,
       accumulated_distance = ?a, stdout = [] \<rparr>"
  let ?st2 = "\<lparr> output_lines = [?o1, ?o2], last_pos = \<lparr> pX = ?b, pY = 0, pE = 2, pF = None \<rparr>,
       accumulated_distance = ?s2, stdout = [] \<rparr>"
  let ?st3 = "\<lparr> output_lines = [?o1, ?o2, ?o3], last_pos = \<lparr> pX = 1, pY = 0, pE = 3, pF = None \<rparr>,
       accumulated_distance = ?s3, stdout = [] \<rparr>"
  have s: "strip ?l1 = ''G1 X0.2 E1''" "strip ?l2 = ''G1 X0.9 E2''" "strip ?l3 = ''G1 X1.0 E3''"
    by (simp_all add: strip_def is_space_def)
  have c: "\<not> is_thermal ?l1" "is_motion_e ?l1" "\<not> is_thermal ?l2" "is_motion_e ?l2"
    "\<not> is_thermal ?l3" "is_motion_e ?l3"
    by (simp_all add: is_thermal_def is_motion_e_def s temperature_re_match_def ci_prefix_def
        ascii_upper_def)
  have t: "move_type_of ?l1 = ''G1''" "move_type_of ?l2 = ''G1''" "move_type_of ?l3 = ''G1''"
    by (simp_all add: move_type_of_def s)
  have m: "move_line ''G1'' \<lparr> pX = ?a, pY = 0, pE = 1, pF = None \<rparr> = ?o1"
    "move_line ''G1'' \<lparr> pX = ?b, pY = 0, pE = 2, pF = None \<rparr> = ?o2"
    "move_line ''G1'' \<lparr> pX = 1, pY = 0, pE = 3, pF = None \<rparr> = ?o3"
    by (simp_all add: fmt_eval)
  have 1: "process_line_fl double init_state ?l1 = ?st1"
    by (subst process_line_fl_below[OF c(1,2), where
          e = "\<lparr> pX = ?a, pY = 0, pE = 1, pF = None \<rparr>" and a = ?a])
      (simp_all add: init_state_def s coords_fl drift_lines_coords double_0 double_1 double_fifth
        double_first distance_xy_fl_axis TRIGGER_DISTANCE_MM_def t m)
  have 2: "process_line_fl double ?st1 ?l2 = ?st2"
    by (subst process_line_fl_below[OF c(3,4), where
          e = "\<lparr> pX = ?b, pY = 0, pE = 2, pF = None \<rparr>" and a = ?s2])
      (simp_all add: s coords_fl drift_lines_coords double_0 double_2 double_nine_tenths
        double_second double_sum_two distance_xy_fl_axis TRIGGER_DISTANCE_MM_def t m)
  have 3: "process_line_fl double ?st2 ?l3 = ?st3"
    by (subst process_line_fl_below[OF c(5,6), where
          e = "\<lparr> pX = 1, pY = 0, pE = 3, pF = None \<rparr>" and a = ?s3])
      (simp_all add: s coords_fl drift_lines_coords double_0 double_1 double_3
        double_third double_sum_three distance_xy_fl_axis TRIGGER_DISTANCE_MM_def t m)
  show ?thesis by (simp add: run_fl_def 1 2 3)
qed

lemma drift_exact_moves:
  "deposit_dists init_state [''G1 X0.2 E1\<newline>'', ''G1 X0.9 E2\<newline>'', ''G1 X1.0 E3\<newline>'']
     = [1 / 5, 7 / 10, 1 / 10]"
proof -
  let ?l1 = "''G1 X0.2 E1\<newline>''" and ?l2 = "''G1 X0.9 E2\<newline>''" and ?l3 = "''G1 X1.0 E3\<newline>''"
  let ?p1 = "\<lparr> pX = 1 / 5, pY = 0, pE = 1, pF = None \<rparr>"
  let ?p2 = "\<lparr> pX = 9 / 10, pY = 0, pE = 2, pF = None \<rparr>"
  let ?p3 = "\<lparr> pX = 1, pY = 0, pE = 3, pF = None \<rparr>"
  have c: "\<not> is_thermal ?l1" "is_motion_e ?l1" "\<not> is_thermal ?l2" "is_motion_e ?l2"
    "\<not> is_thermal ?l3" "is_motion_e ?l3"
    by (simp_all add: classify_eval)
  have e: "end_of (last_pos init_state) ?l1 = ?p1" "end_of ?p1 ?l2 = ?p2" "end_of ?p2 ?l3 = ?p3"
    by (simp_all add: init_state_def coords_eval)
  have d1: "deposit_dist (last_pos init_state) ?l1 = Some (1 / 5)"
    using c(1,2) by (simp add: deposit_dist_def e) (simp add: init_state_def distance_xy_axis)
  have q1: "last_pos (process_line init_state ?l1) = ?p1"
    using c(1) by (simp add: last_pos_step e)
  have d2: "deposit_dist ?p1 ?l2 = Some (7 / 10)"
    using c(3,4) by (simp add: deposit_dist_def e distance_xy_axis)
  have q2: "last_pos (process_line (process_line init_state ?l1) ?l2) = ?p2"
    using c(3) by (simp add: last_pos_step[of "process_line init_state ?l1"] q1 e)
  have d3: "deposit_dist ?p2 ?l3 = Some (1 / 10)"
    using c(5,6) by (simp add: deposit_dist_def e distance_xy_axis)
  show ?thesis by (simp add: d1 q1 d2 q2 d3)
qed

section \<open>The claims\<close>

subsection \<open>C10: a dropped thermal line leaves the tracker alone\<close>

text \<open>
  Claim C10. A line that the loop classifies as thermal control changes nothing of the
  state: the tracked position on every axis and the accumulator (and the output and what
  was printed) are after the line what they were before it, whatever axis values the
  line carries.
\<close>

theorem thermal_lines_leave_state:
  "is_thermal line \<Longrightarrow> process_line st line = st"
  by (rule process_line_thermal)

theorem thermal_lines_leave_state_witness:
  "is_thermal ''m109 S210 X5 E7\<newline>'' \<and>
   process_line \<lparr> output_lines = [''G28\<newline>''],
       last_pos = \<lparr> pX = 1, pY = 2, pE = 3, pF = Some 1500 \<rparr>,
       accumulated_distance = 1 / 2, stdout = [] \<rparr> ''m109 S210 X5 E7\<newline>''
   = \<lparr> output_lines = [''G28\<newline>''],
       last_pos = \<lparr> pX = 1, pY = 2, pE = 3, pF = Some 1500 \<rparr>,
       accumulated_distance = 1 / 2, stdout = [] \<rparr>"
proof -
  have h: "is_thermal ''m109 S210 X5 E7\<newline>''"
    by (simp add: classify_eval)
  show ?thesis using h thermal_lines_leave_state[OF h] by simp
qed

subsection \<open>C8: a motion line that does not extrude\<close>

text \<open>
  Claim C8. A motion line (its stripped text starts with G0 or G1) whose merged end
  position has an E not above the E held before is copied to the output as it is, with
  nothing else emitted (no pulse lines, nothing printed); the accumulator keeps its
  value; and the line's coordinates are merged into the tracked position.
\<close>

theorem nonextruding_motion_frame:
  assumes "prefix ''G0'' (strip line) \<or> prefix ''G1'' (strip line)"
    and "pE (end_of (last_pos st) line) \<le> pE (last_pos st)"
  shows "output_lines (process_line st line) = output_lines st @ [line]
     \<and> accumulated_distance (process_line st line) = accumulated_distance st
     \<and> stdout (process_line st line) = stdout st
     \<and> last_pos (process_line st line) = pos_update (last_pos st) (extract_coords line)"
proof -
  have nt: "\<not> is_thermal line" using assms(1) by (rule motion_not_thermal)
  have "deposit_dist (last_pos st) line = None"
    using assms(2) by (simp add: deposit_dist_def)
  with nt have "process_line st line =
     st \<lparr> output_lines := output_lines st @ [line], last_pos := end_of (last_pos st) line \<rparr>"
    by (rule process_line_verbatim)
  then show ?thesis by (simp add: end_of_def extract_coords_strip)
qed

theorem nonextruding_motion_frame_witness:
  "prefix ''G1'' (strip ''G1 X5 Y6 E2.5 F1500\<newline>'') \<and>
   pE (end_of \<lparr> pX = 1, pY = 2, pE = 3, pF = None \<rparr> ''G1 X5 Y6 E2.5 F1500\<newline>'') \<le> 3 \<and>
   output_lines (process_line \<lparr> output_lines = [], last_pos = \<lparr> pX = 1, pY = 2, pE = 3, pF = None \<rparr>,
       accumulated_distance = 1 / 4, stdout = [] \<rparr> ''G1 X5 Y6 E2.5 F1500\<newline>'')
     = [''G1 X5 Y6 E2.5 F1500\<newline>''] \<and>
   accumulated_distance (process_line \<lparr> output_lines = [],
       last_pos = \<lparr> pX = 1, pY = 2, pE = 3, pF = None \<rparr>,
       accumulated_distance = 1 / 4, stdout = [] \<rparr> ''G1 X5 Y6 E2.5 F1500\<newline>'') = 1 / 4 \<and>
   last_pos (process_line \<lparr> output_lines = [], last_pos = \<lparr> pX = 1, pY = 2, pE = 3, pF = None \<rparr>,
       accumulated_distance = 1 / 4, stdout = [] \<rparr> ''G1 X5 Y6 E2.5 F1500\<newline>'')
     = \<lparr> pX = 5, pY = 6, pE = 5 / 2, pF = Some 1500 \<rparr>"
proof -
  let ?l = "''G1 X5 Y6 E2.5 F1500\<newline>''"
  let ?st = "\<lparr> output_lines = [], last_pos = \<lparr> pX = 1, pY = 2, pE = 3, pF = None \<rparr>,
       accumulated_distance = 1 / 4, stdout = [] \<rparr>"
  have s: "strip ?l = ''G1 X5 Y6 E2.5 F1500''" by (simp add: strip_def is_space_def)
  have h1: "prefix ''G0'' (strip ?l) \<or> prefix ''G1'' (strip ?l)" by (simp add: s)
  have e: "end_of \<lparr> pX = 1, pY = 2, pE = 3, pF = None \<rparr> ?l
      = \<lparr> pX = 5, pY = 6, pE = 5 / 2, pF = Some 1500 \<rparr>"
    by (simp add: coords_eval)
  have h2: "pE (end_of (last_pos ?st) ?l) \<le> pE (last_pos ?st)" by (simp add: e)
  have u: "pos_update \<lparr> pX = 1, pY = 2, pE = 3, pF = None \<rparr> (extract_coords ?l)
      = \<lparr> pX = 5, pY = 6, pE = 5 / 2, pF = Some 1500 \<rparr>"
    using e by (simp add: end_of_def extract_coords_strip)
  show ?thesis using nonextruding_motion_frame[OF h1 h2] s e u by simp
qed

subsection \<open>C7: thermal lines are elided\<close>

text \<open>
  Claim C7. A line that begins with M104 or M109, in either case of the letter, is a
  thermal line of the loop (which tests the stripped line). A thermal line is not a line
  of the output, and nothing stands in for it: the output is the output of the input
  with its thermal lines removed. All the other lines keep their order: the lines that
  the loop copies (every line that is neither thermal nor a depositing move, a G0/G1
  line with an E that does not extrude included) are, in their input order, a
  subsequence of the output; so are, among them, the lines that never reach the
  distance tracking. What is left, the depositing moves, is rewritten in place.
\<close>

theorem thermal_elision:
  "(ci_prefix ''M104'' line \<or> ci_prefix ''M109'' line \<longrightarrow> is_thermal line)
   \<and> (is_thermal line \<longrightarrow> line \<notin> set (process_gcode lines))
   \<and> process_gcode lines = process_gcode (filter (\<lambda>l. \<not> is_thermal l) lines)
   \<and> subseq (filter (\<lambda>l. \<not> is_thermal l \<and> \<not> is_motion_e l) lines) (process_gcode lines)
   \<and> subseq (copied_lines init_state lines) (process_gcode lines)"
proof -
  have "\<forall>l\<in>set (output_lines (foldl process_line init_state lines)). \<not> is_thermal l"
    by (rule foldl_output_not_thermal) (simp add: init_state_def)
  then have a: "is_thermal line \<longrightarrow> line \<notin> set (process_gcode lines)"
    by (auto simp add: process_gcode_def run_def)
  have b: "process_gcode lines = process_gcode (filter (\<lambda>l. \<not> is_thermal l) lines)"
    by (simp add: process_gcode_def run_def foldl_filter_thermal)
  have c: "subseq (filter (\<lambda>l. \<not> is_thermal l \<and> \<not> is_motion_e l) lines) (process_gcode lines)"
    using foldl_output_subseq[of init_state lines]
    by (auto simp add: process_gcode_def run_def init_state_def)
  have "\<exists>new. output_lines (foldl process_line init_state lines) = output_lines init_state @ new
      \<and> subseq (copied_lines init_state lines) new"
    by (rule foldl_output_copied)
  then have e: "subseq (copied_lines init_state lines) (process_gcode lines)"
    by (auto simp add: process_gcode_def run_def init_state_def)
  have d: "ci_prefix ''M104'' line \<or> ci_prefix ''M109'' line \<longrightarrow> is_thermal line"
    using literal_prefix_thermal by blast
  from d a b c e show ?thesis by (intro conjI)
qed

theorem thermal_elision_witness:
  "is_thermal ''m109 S210\<newline>''
   \<and> ''m109 S210\<newline>'' \<notin> set (process_gcode
         [''G28\<newline>'', ''m109 S210\<newline>'', ''G1 E-2 F1800\<newline>'', ''G1 X5\<newline>''])
   \<and> process_gcode [''G28\<newline>'', ''m109 S210\<newline>'', ''G1 E-2 F1800\<newline>'', ''G1 X5\<newline>'']
       = process_gcode [''G28\<newline>'', ''G1 E-2 F1800\<newline>'', ''G1 X5\<newline>'']
   \<and> is_motion_e ''G1 E-2 F1800\<newline>''
   \<and> copied_lines init_state [''G28\<newline>'', ''m109 S210\<newline>'', ''G1 E-2 F1800\<newline>'', ''G1 X5\<newline>'']
       = [''G28\<newline>'', ''G1 E-2 F1800\<newline>'', ''G1 X5\<newline>'']
   \<and> subseq [''G28\<newline>'', ''G1 E-2 F1800\<newline>'', ''G1 X5\<newline>'']
       (process_gcode [''G28\<newline>'', ''m109 S210\<newline>'', ''G1 E-2 F1800\<newline>'', ''G1 X5\<newline>''])"
proof -
  let ?g = "''G28\<newline>''" and ?m = "''m109 S210\<newline>''" and ?r = "''G1 E-2 F1800\<newline>''"
    and ?x = "''G1 X5\<newline>''"
  let ?L = "[?g, ?m, ?r, ?x]"
  have c: "ci_prefix ''M104'' ?m \<or> ci_prefix ''M109'' ?m"
    by (simp add: ci_prefix_def ascii_upper_def)
  have t: "\<not> is_thermal ?g" "\<not> is_thermal ?r" "\<not> is_thermal ?x"
    by (simp_all add: classify_eval)
  have m: "\<not> is_motion_e ?g" "is_motion_e ?r" "\<not> is_motion_e ?x"
    by (simp_all add: classify_eval)
  note T = thermal_elision[of ?m ?L]
  have th: "is_thermal ?m" using T c by blast
  have f1: "filter (\<lambda>l. \<not> is_thermal l) ?L = [?g, ?r, ?x]"
    using th t by simp
  have p0: "end_of (last_pos init_state) ?g = last_pos init_state"
    by (simp add: init_state_def coords_eval)
  have p1: "last_pos (process_line (process_line init_state ?g) ?m) = last_pos init_state"
    using th t(1) by (simp add: last_pos_step p0)
  have e: "end_of (last_pos init_state) ?r = \<lparr> pX = 0, pY = 0, pE = - 2, pF = Some 1800 \<rparr>"
    by (simp add: init_state_def coords_eval)
  have dg: "deposit_dist p ?g = None" "deposit_dist p ?x = None" for p
    using m(1,3) by (simp_all add: deposit_dist_def)
  have dr: "deposit_dist (last_pos (process_line (process_line init_state ?g) ?m)) ?r = None"
    by (simp add: p1 deposit_dist_def e) (simp add: init_state_def)
  have cl: "copied_lines init_state ?L = [?g, ?r, ?x]"
    using th t dg dr by simp
  have a: "?m \<notin> set (process_gcode ?L)" using T th by blast
  have b: "process_gcode ?L = process_gcode (filter (\<lambda>l. \<not> is_thermal l) ?L)"
    using T by blast
  have d: "subseq (copied_lines init_state ?L) (process_gcode ?L)"
    using T by blast
  show ?thesis using th a b d m(2) cl by (simp only: f1 cl) simp
qed

subsection \<open>C3: the final move to the end position\<close>

text \<open>
  Claim C3. For a depositing move (the line reaches the distance tracking and the merged
  E is strictly above the E held before), what the loop appends to the output is the
  pulse groups of the interpolated points followed by exactly one motion line to the
  end position of the move: four lines for each crossing and one line more. The line to
  the end position is there when the crossing count is 0 too, and is then all that is
  appended.
\<close>

theorem final_end_move:
  assumes "deposit_dist (last_pos st) line = Some d"
  shows "output_lines (process_line st line) = output_lines st @ emitted st line
   \<and> emitted st line =
       concat (map (pulse_lines (move_type_of line))
         (segment_move (last_pos st) (end_of (last_pos st) line) (crossings st line)))
       @ [move_line (move_type_of line) (end_of (last_pos st) line)]
   \<and> length (emitted st line) = 4 * nat (crossings st line) + 1
   \<and> (crossings st line = 0 \<longrightarrow>
        emitted st line = [move_line (move_type_of line) (end_of (last_pos st) line)])"
proof -
  have e: "emitted st line =
       concat (map (pulse_lines (move_type_of line))
         (segment_move (last_pos st) (end_of (last_pos st) line) (crossings st line)))
       @ [move_line (move_type_of line) (end_of (last_pos st) line)]"
    using assms by (rule emitted_depositing)
  have "length (concat (map (pulse_lines mt) segs)) = 4 * length segs" for mt segs
    by (induction segs) (simp_all add: pulse_lines_def)
  then have l: "length (emitted st line) = 4 * nat (crossings st line) + 1"
    by (simp add: e length_segment_move)
  have z: "crossings st line = 0 \<longrightarrow>
        emitted st line = [move_line (move_type_of line) (end_of (last_pos st) line)]"
    by (simp add: e segment_move_nonpos)
  from output_lines_process_line e l z show ?thesis by (intro conjI)
qed

theorem final_end_move_witness:
  "deposit_dist (last_pos init_state) ''G1 X0.5 Y0 E1\<newline>'' = Some (1 / 2)
   \<and> crossings init_state ''G1 X0.5 Y0 E1\<newline>'' = 0
   \<and> emitted init_state ''G1 X0.5 Y0 E1\<newline>'' = [''G1 X0.50000 Y0.00000 E1.00000\<newline>'']
   \<and> output_lines (process_line init_state ''G1 X0.5 Y0 E1\<newline>'')
       = [''G1 X0.50000 Y0.00000 E1.00000\<newline>'']"
proof -
  let ?l = "''G1 X0.5 Y0 E1\<newline>''"
  have s: "strip ?l = ''G1 X0.5 Y0 E1''" by (simp add: strip_def is_space_def)
  have e: "end_of (last_pos init_state) ?l = \<lparr> pX = 1 / 2, pY = 0, pE = 1, pF = None \<rparr>"
    by (simp add: init_state_def coords_eval)
  have d: "deposit_dist (last_pos init_state) ?l = Some (1 / 2)"
    by (simp add: deposit_eval e s) (simp add: init_state_def)
  have c: "crossings init_state ?l = 0"
    by (simp add: crossings_def d) (simp add: init_state_def TRIGGER_DISTANCE_MM_def)
  have t: "move_type_of ?l = ''G1''" by (simp add: move_type_of_def s)
  have m: "move_line ''G1'' \<lparr> pX = 1 / 2, pY = 0, pE = 1, pF = None \<rparr>
      = ''G1 X0.50000 Y0.00000 E1.00000\<newline>''"
    by (simp add: fmt_eval)
  note T = final_end_move[OF d]
  from T c have "emitted init_state ?l
      = [move_line (move_type_of ?l) (end_of (last_pos init_state) ?l)]"
    by blast
  then have 1: "emitted init_state ?l = [''G1 X0.50000 Y0.00000 E1.00000\<newline>'']"
    by (simp add: t e m)
  have 2: "output_lines (process_line init_state ?l) = [''G1 X0.50000 Y0.00000 E1.00000\<newline>'']"
    using T 1 by (simp add: init_state_def)
  from d c 1 2 show ?thesis by (intro conjI)
qed

subsection \<open>C9: rewritten lines carry a command code, X, Y and E only\<close>

text \<open>
  Claim C9. For a depositing move, every line appended to the output is one of the three
  actuator lines or a motion line made of the command code and the X, Y and E fields
  only: it holds no letter F (no feed-rate parameter) and no semicolon (no comment),
  whatever the input line carried. This covers the interpolated lines and the final line
  to the end position. The command code is G0 or G1, and the feed rate that
  \<^verbatim>\<open>segment_move\<close> stores in a point has no effect on the line written for it.
\<close>

theorem rewritten_lines_carry_no_feed_rate:
  assumes "deposit_dist (last_pos st) line = Some d"
  shows "(\<forall>l\<in>set (emitted st line).
            l \<in> {fan_on_line, dwell_line, fan_off_line}
          \<or> ((\<exists>x y e. l = move_type_of line @ '' X'' @ fmt_f 5 x @ '' Y'' @ fmt_f 5 y
                         @ '' E'' @ fmt_f 5 e @ ''\<newline>'')
             \<and> CHR ''F'' \<notin> set l \<and> CHR '';'' \<notin> set l))
     \<and> (move_type_of line = ''G0'' \<or> move_type_of line = ''G1'')
     \<and> (\<forall>p f. move_line (move_type_of line) (p \<lparr> pF := f \<rparr>) = move_line (move_type_of line) p)"
proof -
  have m: "(\<exists>x y e. move_line (move_type_of line) p = move_type_of line @ '' X'' @ fmt_f 5 x
              @ '' Y'' @ fmt_f 5 y @ '' E'' @ fmt_f 5 e @ ''\<newline>'')
      \<and> CHR ''F'' \<notin> set (move_line (move_type_of line) p)
      \<and> CHR '';'' \<notin> set (move_line (move_type_of line) p)" for p
  proof -
    have "\<exists>x y e. move_line (move_type_of line) p = move_type_of line @ '' X'' @ fmt_f 5 x
              @ '' Y'' @ fmt_f 5 y @ '' E'' @ fmt_f 5 e @ ''\<newline>''"
      unfolding move_line_def by blast
    then show ?thesis using move_line_chars[of _ line p] by blast
  qed
  have "\<forall>l\<in>set (emitted st line).
            l \<in> {fan_on_line, dwell_line, fan_off_line}
          \<or> ((\<exists>x y e. l = move_type_of line @ '' X'' @ fmt_f 5 x @ '' Y'' @ fmt_f 5 y
                         @ '' E'' @ fmt_f 5 e @ ''\<newline>'')
             \<and> CHR ''F'' \<notin> set l \<and> CHR '';'' \<notin> set l)"
  proof
    fix l assume "l \<in> set (emitted st line)"
    then have "l \<in> {fan_on_line, dwell_line, fan_off_line}
        \<or> (\<exists>p. l = move_line (move_type_of line) p)"
      by (auto simp add: emitted_depositing[OF assms] pulse_lines_def)
    then show "l \<in> {fan_on_line, dwell_line, fan_off_line}
          \<or> ((\<exists>x y e. l = move_type_of line @ '' X'' @ fmt_f 5 x @ '' Y'' @ fmt_f 5 y
                         @ '' E'' @ fmt_f 5 e @ ''\<newline>'')
             \<and> CHR ''F'' \<notin> set l \<and> CHR '';'' \<notin> set l)"
      using m by blast
  qed
  moreover have "\<forall>p f. move_line (move_type_of line) (p \<lparr> pF := f \<rparr>) = move_line (move_type_of line) p"
    by (simp add: move_line_def)
  ultimately show ?thesis using move_type_of_cases by blast
qed

theorem rewritten_lines_carry_no_feed_rate_witness:
  "deposit_dist (last_pos init_state) ''G1 X1 Y0 E1 F1500 ; fast\<newline>'' = Some 1
   \<and> emitted init_state ''G1 X1 Y0 E1 F1500 ; fast\<newline>''
       = [''G1 X1.00000 Y0.00000 E1.00000\<newline>'', ''M106 S255 ; ON\<newline>'',
          ''G4 P200 ; Wait\<newline>'', ''M107 ; OFF\<newline>'', ''G1 X1.00000 Y0.00000 E1.00000\<newline>'']
   \<and> CHR ''F'' \<notin> set ''G1 X1.00000 Y0.00000 E1.00000\<newline>''
   \<and> CHR '';'' \<notin> set ''G1 X1.00000 Y0.00000 E1.00000\<newline>''"
proof -
  let ?l = "''G1 X1 Y0 E1 F1500 ; fast\<newline>''"
  let ?m = "''G1 X1.00000 Y0.00000 E1.00000\<newline>''"
  have s: "strip ?l = ''G1 X1 Y0 E1 F1500 ; fast''" by (simp add: strip_def is_space_def)
  have e: "end_of (last_pos init_state) ?l = \<lparr> pX = 1, pY = 0, pE = 1, pF = Some 1500 \<rparr>"
    by (simp add: init_state_def coords_eval)
  have d: "deposit_dist (last_pos init_state) ?l = Some 1"
    by (simp add: deposit_eval e s) (simp add: init_state_def)
  have c: "crossings init_state ?l = 1"
    by (simp add: crossings_def d) (simp add: init_state_def TRIGGER_DISTANCE_MM_def)
  have t: "move_type_of ?l = ''G1''" by (simp add: move_type_of_def s)
  have g: "segment_move (last_pos init_state) \<lparr> pX = 1, pY = 0, pE = 1, pF = Some 1500 \<rparr> 1
      = [\<lparr> pX = 1, pY = 0, pE = 1, pF = Some 1500 \<rparr>]"
    by (simp add: segment_move_def interpolate_def init_state_def)
  have m: "move_line ''G1'' \<lparr> pX = 1, pY = 0, pE = 1, pF = Some 1500 \<rparr> = ?m"
    by (simp add: fmt_eval)
  have a: "fan_on_line = ''M106 S255 ; ON\<newline>''" "dwell_line = ''G4 P200 ; Wait\<newline>''"
    "fan_off_line = ''M107 ; OFF\<newline>''"
    by (simp_all add: fan_on_line_def dwell_line_def fan_off_line_def str_int_def
        FAN_ON_TIME_MS_def dec.simps digit_char_def)
  have 1: "emitted init_state ?l = [?m, ''M106 S255 ; ON\<newline>'', ''G4 P200 ; Wait\<newline>'',
      ''M107 ; OFF\<newline>'', ?m]"
    by (simp add: emitted_depositing[OF d] c t e g m pulse_lines_def a)
  have "\<forall>l\<in>set (emitted init_state ?l).
            l \<in> {fan_on_line, dwell_line, fan_off_line}
          \<or> ((\<exists>x y e. l = move_type_of ?l @ '' X'' @ fmt_f 5 x @ '' Y'' @ fmt_f 5 y
                         @ '' E'' @ fmt_f 5 e @ ''\<newline>'')
             \<and> CHR ''F'' \<notin> set l \<and> CHR '';'' \<notin> set l)"
    using rewritten_lines_carry_no_feed_rate[OF d] by blast
  moreover have "?m \<in> set (emitted init_state ?l)" by (simp add: 1)
  moreover have "?m \<notin> {fan_on_line, dwell_line, fan_off_line}" by (simp add: a)
  ultimately have 2: "CHR ''F'' \<notin> set ?m \<and> CHR '';'' \<notin> set ?m" by blast
  from d 1 2 show ?thesis by blast
qed

subsection \<open>C4: the accumulator is renewed, never reset\<close>

text \<open>
  Claim C4. The accumulator starts at 0. After every processed line it is at least 0 and
  below the trigger distance. Processing one more line (\<open>run (lines @ [line])\<close> is one
  pass of the loop body after \<open>run lines\<close>) leaves it as it is unless the line is a
  depositing move of planar displacement \<open>d\<close>, and then changes it from \<open>a\<close> to
  \<open>(a + d) - \<lfloor>(a + d) / threshold\<rfloor> * threshold\<close>: only whole multiples of the trigger
  distance are ever taken away.
\<close>

theorem accumulator_renewal:
  "accumulated_distance init_state = 0
   \<and> 0 \<le> accumulated_distance (run lines)
   \<and> accumulated_distance (run lines) < TRIGGER_DISTANCE_MM
   \<and> run (lines @ [line]) = process_line (run lines) line
   \<and> accumulated_distance (process_line (run lines) line) =
       (case deposit_dist (last_pos (run lines)) line of
          None \<Rightarrow> accumulated_distance (run lines)
        | Some d \<Rightarrow> (accumulated_distance (run lines) + d)
            - real_of_int \<lfloor>(accumulated_distance (run lines) + d) / TRIGGER_DISTANCE_MM\<rfloor>
              * TRIGGER_DISTANCE_MM)"
proof -
  have i: "0 \<le> accumulated_distance (run lines)"
    "accumulated_distance (run lines) < TRIGGER_DISTANCE_MM"
    using accumulator_invariant_run by blast+
  have u: "accumulated_distance (process_line (run lines) line) =
       (case deposit_dist (last_pos (run lines)) line of
          None \<Rightarrow> accumulated_distance (run lines)
        | Some d \<Rightarrow> (accumulated_distance (run lines) + d)
            - real_of_int \<lfloor>(accumulated_distance (run lines) + d) / TRIGGER_DISTANCE_MM\<rfloor>
              * TRIGGER_DISTANCE_MM)"
  proof (cases "deposit_dist (last_pos (run lines)) line")
    case None
    then show ?thesis by (simp add: accumulated_distance_step)
  next
    case (Some d)
    then show ?thesis by (simp add: accumulated_distance_step crossings_floor[OF Some i(1)])
  qed
  have z: "accumulated_distance init_state = 0" by (simp add: init_state_def)
  from z i run_snoc u show ?thesis by (intro conjI)
qed

theorem accumulator_renewal_witness:
  "accumulated_distance (run [''G1 X0.5 E1\<newline>'']) = 1 / 2
   \<and> deposit_dist (last_pos (run [''G1 X0.5 E1\<newline>''])) ''G1 X2.25 E2\<newline>'' = Some (7 / 4)
   \<and> accumulated_distance (run [''G1 X0.5 E1\<newline>'', ''G1 X2.25 E2\<newline>'']) = 1 / 4"
proof -
  let ?l1 = "''G1 X0.5 E1\<newline>''" and ?l2 = "''G1 X2.25 E2\<newline>''"
  have s1: "strip ?l1 = ''G1 X0.5 E1''" and s2: "strip ?l2 = ''G1 X2.25 E2''"
    by (simp_all add: strip_def is_space_def)
  have e1: "end_of (last_pos init_state) ?l1 = \<lparr> pX = 1 / 2, pY = 0, pE = 1, pF = None \<rparr>"
    by (simp add: init_state_def coords_eval)
  have d1: "deposit_dist (last_pos init_state) ?l1 = Some (1 / 2)"
    by (simp add: deposit_eval e1 s1) (simp add: init_state_def)
  have r: "run [?l1] = process_line init_state ?l1" by (simp add: run_def)
  have nt: "\<not> is_thermal ?l1" by (simp add: classify_eval)
  have p1: "last_pos (run [?l1]) = \<lparr> pX = 1 / 2, pY = 0, pE = 1, pF = None \<rparr>"
    by (simp add: r last_pos_step nt e1)
  have a1: "accumulated_distance (run [?l1]) = 1 / 2"
    by (simp add: r accumulated_distance_step d1 crossings_def)
      (simp add: init_state_def TRIGGER_DISTANCE_MM_def)
  have e2: "end_of \<lparr> pX = 1 / 2, pY = 0, pE = 1, pF = None \<rparr> ?l2
      = \<lparr> pX = 9 / 4, pY = 0, pE = 2, pF = None \<rparr>"
    by (simp add: coords_eval)
  have d2: "deposit_dist (last_pos (run [?l1])) ?l2 = Some (7 / 4)"
    by (simp add: p1 deposit_dist_def e2 distance_xy_axis) (simp add: classify_eval)
  note T = accumulator_renewal[of "[?l1]" ?l2]
  from T have "run ([?l1] @ [?l2]) = process_line (run [?l1]) ?l2" by blast
  moreover from T have "accumulated_distance (process_line (run [?l1]) ?l2) =
       (case deposit_dist (last_pos (run [?l1])) ?l2 of
          None \<Rightarrow> accumulated_distance (run [?l1])
        | Some d \<Rightarrow> (accumulated_distance (run [?l1]) + d)
            - real_of_int \<lfloor>(accumulated_distance (run [?l1]) + d) / TRIGGER_DISTANCE_MM\<rfloor>
              * TRIGGER_DISTANCE_MM)"
    by blast
  ultimately have "accumulated_distance (run [?l1, ?l2]) = 1 / 4"
    by (simp add: d2 a1 TRIGGER_DISTANCE_MM_def)
  with a1 d2 show ?thesis by (intro conjI)
qed

subsection \<open>C1: the pulses of a run count the whole distance\<close>

text \<open>
  Claim C1, as amended. Let the loop run in exact arithmetic (the displacements, their
  accumulation, the comparison with the threshold and the floor all exact), and let
  \<open>d\<^sub>1, \<dots>, d\<^sub>n\<close> be the planar displacements of the depositing moves of the run. The
  number of pulses that the run emits is \<open>\<lfloor>(d\<^sub>1 + \<dots> + d\<^sub>n) / threshold\<rfloor>\<close>, however the
  distance is split into moves. The pulses are counted in the output (the actuator-on
  lines beyond those that the input already held, which are copied) and in what is
  printed (one message for each pulse).
\<close>

theorem distance_renewal:
  "count_list (process_gcode lines) fan_on_line
     = count_list lines fan_on_line
       + nat \<lfloor>sum_list (deposit_dists init_state lines) / TRIGGER_DISTANCE_MM\<rfloor>
   \<and> length (stdout (run lines))
     = nat \<lfloor>sum_list (deposit_dists init_state lines) / TRIGGER_DISTANCE_MM\<rfloor>"
proof -
  let ?S = "sum_list (deposit_dists init_state lines)"
  have i: "0 \<le> accumulated_distance init_state" "accumulated_distance init_state < TRIGGER_DISTANCE_MM"
    by (simp_all add: init_state_def TRIGGER_DISTANCE_MM_def)
  obtain n :: nat where n:
    "count_list (output_lines (run lines)) fan_on_line = count_list lines fan_on_line + n"
    "length (stdout (run lines)) = n"
    "accumulated_distance (run lines) + real n * TRIGGER_DISTANCE_MM = ?S"
    using renewal_foldl[OF i, of lines] by (auto simp add: run_def init_state_def)
  have b: "0 \<le> accumulated_distance (run lines)" "accumulated_distance (run lines) < TRIGGER_DISTANCE_MM"
    using accumulator_invariant_run by blast+
  have "\<lfloor>?S / TRIGGER_DISTANCE_MM\<rfloor> = int n"
    using n(3) b by (simp add: TRIGGER_DISTANCE_MM_def) linarith
  then have "nat \<lfloor>?S / TRIGGER_DISTANCE_MM\<rfloor> = n" by simp
  then show ?thesis using n(1,2) by (simp add: process_gcode_def)
qed

theorem distance_renewal_witness:
  "count_list (process_gcode [''G1 X0.5 E1\<newline>'', ''G1 X2.25 E2\<newline>'']) fan_on_line = 2
   \<and> count_list (process_gcode [''G1 X2.25 E1\<newline>'']) fan_on_line = 2
   \<and> sum_list (deposit_dists init_state [''G1 X0.5 E1\<newline>'', ''G1 X2.25 E2\<newline>'']) = 9 / 4
   \<and> sum_list (deposit_dists init_state [''G1 X2.25 E1\<newline>'']) = 9 / 4"
proof -
  let ?l1 = "''G1 X0.5 E1\<newline>''" and ?l2 = "''G1 X2.25 E2\<newline>''" and ?l = "''G1 X2.25 E1\<newline>''"
  have d1: "deposit_dists init_state [?l1, ?l2] = [1 / 2, 7 / 4]"
    by (simp add: example_first_move example_second_move)
  have d2: "deposit_dists init_state [?l] = [9 / 4]"
    by (simp add: example_single_move)
  have c: "count_list [?l1, ?l2] fan_on_line = 0" "count_list [?l] fan_on_line = 0"
    by (simp_all add: fan_on_line_def)
  have "count_list (process_gcode [?l1, ?l2]) fan_on_line
      = count_list [?l1, ?l2] fan_on_line
        + nat \<lfloor>sum_list (deposit_dists init_state [?l1, ?l2]) / TRIGGER_DISTANCE_MM\<rfloor>"
    using distance_renewal[of "[?l1, ?l2]"] by blast
  then have 1: "count_list (process_gcode [?l1, ?l2]) fan_on_line = 2"
    by (simp only: d1 c) (simp add: TRIGGER_DISTANCE_MM_def)
  have "count_list (process_gcode [?l]) fan_on_line
      = count_list [?l] fan_on_line
        + nat \<lfloor>sum_list (deposit_dists init_state [?l]) / TRIGGER_DISTANCE_MM\<rfloor>"
    using distance_renewal[of "[?l]"] by blast
  then have 2: "count_list (process_gcode [?l]) fan_on_line = 2"
    by (simp only: d2 c) (simp add: TRIGGER_DISTANCE_MM_def)
  have 3: "sum_list (deposit_dists init_state [?l1, ?l2]) = 9 / 4" by (simp only: d1) simp
  have 4: "sum_list (deposit_dists init_state [?l]) = 9 / 4" by (simp only: d2) simp
  from 1 2 3 4 show ?thesis by (intro conjI)
qed

text \<open>
  The claim as it was stated, for the run of the program, fails: the program
  accumulates in doubles. Three moves along the X axis to 0.2, 0.9 and 1.0 have the
  displacements 0.2, 0.7 and 0.1, of sum 1, so that one pulse is due. In doubles the
  accumulator goes through 0.2, 0.8999999999999999 and 0.9999999999999999 (that is
  \<open>1 - 1 / 2 ^ 53\<close>), never reaches the threshold, and the program emits no pulse. The
  exact displacements between the parsed doubles add up to 1 as well (the last
  conjunct).
\<close>

theorem rounded_accumulator_misses_a_pulse:
  "deposit_dists init_state [''G1 X0.2 E1\<newline>'', ''G1 X0.9 E2\<newline>'', ''G1 X1.0 E3\<newline>'']
     = [1 / 5, 7 / 10, 1 / 10]
   \<and> nat \<lfloor>sum_list (deposit_dists init_state
          [''G1 X0.2 E1\<newline>'', ''G1 X0.9 E2\<newline>'', ''G1 X1.0 E3\<newline>'']) / TRIGGER_DISTANCE_MM\<rfloor> = 1
   \<and> process_gcode_double [''G1 X0.2 E1\<newline>'', ''G1 X0.9 E2\<newline>'', ''G1 X1.0 E3\<newline>'']
     = [''G1 X0.20000 Y0.00000 E1.00000\<newline>'', ''G1 X0.90000 Y0.00000 E2.00000\<newline>'',
        ''G1 X1.00000 Y0.00000 E3.00000\<newline>'']
   \<and> count_list (process_gcode_double
          [''G1 X0.2 E1\<newline>'', ''G1 X0.9 E2\<newline>'', ''G1 X1.0 E3\<newline>'']) fan_on_line = 0
   \<and> stdout (run_fl double [''G1 X0.2 E1\<newline>'', ''G1 X0.9 E2\<newline>'', ''G1 X1.0 E3\<newline>'']) = []
   \<and> accumulated_distance
        (run_fl double [''G1 X0.2 E1\<newline>'', ''G1 X0.9 E2\<newline>'', ''G1 X1.0 E3\<newline>''])
     = 9007199254740991 / 9007199254740992
   \<and> double (1 / 5) + (double (9 / 10) - double (1 / 5)) + (1 - double (9 / 10)) = 1"
proof -
  let ?L = "[''G1 X0.2 E1\<newline>'', ''G1 X0.9 E2\<newline>'', ''G1 X1.0 E3\<newline>'']"
  have 1: "nat \<lfloor>sum_list (deposit_dists init_state ?L) / TRIGGER_DISTANCE_MM\<rfloor> = 1"
    by (simp only: drift_exact_moves) (simp add: TRIGGER_DISTANCE_MM_def)
  have 2: "process_gcode_double ?L
     = [''G1 X0.20000 Y0.00000 E1.00000\<newline>'', ''G1 X0.90000 Y0.00000 E2.00000\<newline>'',
        ''G1 X1.00000 Y0.00000 E3.00000\<newline>'']"
    by (simp only: process_gcode_double_def drift_run) simp
  have 3: "count_list (process_gcode_double ?L) fan_on_line = 0"
    by (simp only: 2) (simp add: fan_on_line_def)
  have 4: "stdout (run_fl double ?L) = []" by (simp only: drift_run) simp
  have 5: "accumulated_distance (run_fl double ?L) = 9007199254740991 / 9007199254740992"
    by (simp only: drift_run) simp
  have 6: "double (1 / 5) + (double (9 / 10) - double (1 / 5)) + (1 - double (9 / 10)) = 1"
    by simp
  from drift_exact_moves 1 2 3 4 5 6 show ?thesis by (intro conjI)
qed

subsection \<open>C6: which occurrence of an axis letter is read\<close>

text \<open>
  Claim C6, as amended. For a line and one of the four axis letters, the extractor
  returns the value of the number text that follows the first occurrence of the letter
  that has a number after it, the number text being the longest beginning of what
  follows that the grammar accepts; and it returns absent exactly when no occurrence of
  the letter on the line is followed by a number. Text that the grammar rejects after
  one occurrence is no failure, and the search goes on to the later occurrences.
\<close>

theorem extract_first_numbered_occurrence:
  assumes "axis \<in> set ''XYEF''"
  shows "(extract_coords line axis = None
            \<longleftrightarrow> (\<forall>pre post. line = pre @ axis # post \<longrightarrow> \<not> has_number post))
     \<and> (\<forall>v. extract_coords line axis = Some v \<longrightarrow>
           (\<exists>pre num rest. line = pre @ axis # num @ rest \<and> spec_number num \<and> v = float_of num
              \<and> (\<forall>n. prefix n (num @ rest) \<and> spec_number n \<longrightarrow> length n \<le> length num)
              \<and> (\<forall>pre' post'. line = pre' @ axis # post' \<and> length pre' < length pre
                    \<longrightarrow> \<not> has_number post')))"
proof -
  have e: "extract_coords line axis = map_option float_of (re_search axis line)"
    using assms by (simp add: extract_coords_def)
  have 1: "extract_coords line axis = None
            \<longleftrightarrow> (\<forall>pre post. line = pre @ axis # post \<longrightarrow> \<not> has_number post)"
  proof
    assume "extract_coords line axis = None"
    then have "re_search axis line = None" by (simp add: e)
    then show "\<forall>pre post. line = pre @ axis # post \<longrightarrow> \<not> has_number post"
      using re_search_None by blast
  next
    assume a: "\<forall>pre post. line = pre @ axis # post \<longrightarrow> \<not> has_number post"
    show "extract_coords line axis = None"
    proof (cases "re_search axis line")
      case None
      then show ?thesis by (simp add: e)
    next
      case (Some num)
      then obtain pre rest where p: "line = pre @ axis # num @ rest" "spec_number num"
        using re_search_Some by blast
      have "prefix num (num @ rest)" by simp
      then have "has_number (num @ rest)" using p(2) by (auto simp add: has_number_def)
      with a p(1) show ?thesis by blast
    qed
  qed
  have 2: "\<forall>v. extract_coords line axis = Some v \<longrightarrow>
           (\<exists>pre num rest. line = pre @ axis # num @ rest \<and> spec_number num \<and> v = float_of num
              \<and> (\<forall>n. prefix n (num @ rest) \<and> spec_number n \<longrightarrow> length n \<le> length num)
              \<and> (\<forall>pre' post'. line = pre' @ axis # post' \<and> length pre' < length pre
                    \<longrightarrow> \<not> has_number post'))"
  proof (intro allI impI)
    fix v assume "extract_coords line axis = Some v"
    then obtain num where n: "re_search axis line = Some num" "v = float_of num"
      by (auto simp add: e)
    from re_search_Some[OF n(1)] n(2)
    show "\<exists>pre num rest. line = pre @ axis # num @ rest \<and> spec_number num \<and> v = float_of num
              \<and> (\<forall>n. prefix n (num @ rest) \<and> spec_number n \<longrightarrow> length n \<le> length num)
              \<and> (\<forall>pre' post'. line = pre' @ axis # post' \<and> length pre' < length pre
                    \<longrightarrow> \<not> has_number post')"
      by blast
  qed
  from 1 2 show ?thesis by (rule conjI)
qed

theorem extract_first_numbered_occurrence_witness:
  "CHR ''X'' \<in> set ''XYEF''
   \<and> extract_coords ''G1 X Y2 X-7.25abc'' CHR ''X'' = Some (- (29 / 4))
   \<and> (\<exists>pre num rest. ''G1 X Y2 X-7.25abc'' = pre @ CHR ''X'' # num @ rest \<and> spec_number num
         \<and> - (29 / 4) = float_of num)
   \<and> extract_coords ''G1 X Y2'' CHR ''X'' = None
   \<and> \<not> has_number '' Y2''"
proof -
  have h: "CHR ''X'' \<in> set ''XYEF''" by simp
  have e: "extract_coords ''G1 X Y2 X-7.25abc'' CHR ''X'' = Some (- (29 / 4))"
    by (simp add: extract_coords_def number_rx_def is_digit_def float_of_def unsigned_val_def
        digits_val_def digit_val_def)
  note T1 = extract_first_numbered_occurrence[OF h, of "''G1 X Y2 X-7.25abc''"]
  from T1 e have 1: "\<exists>pre num rest. ''G1 X Y2 X-7.25abc'' = pre @ CHR ''X'' # num @ rest
      \<and> spec_number num \<and> - (29 / 4) = float_of num"
    by blast
  have n: "extract_coords ''G1 X Y2'' CHR ''X'' = None"
    by (simp add: extract_coords_def number_rx_def is_digit_def)
  note T2 = extract_first_numbered_occurrence[OF h, of "''G1 X Y2''"]
  have "''G1 X Y2'' = ''G1 '' @ CHR ''X'' # '' Y2''" by simp
  with T2 n have 2: "\<not> has_number '' Y2''" by blast
  from h e 1 n 2 show ?thesis by (intro conjI)
qed

text \<open>
  The claim as it was stated (absent when the text after the first occurrence is
  rejected, a later occurrence never used) fails: in \<^verbatim>\<open>G1 X Y2 X7\<close> the first X is
  followed by a blank, which the grammar rejects, and the value 7 of the second X is
  returned.
\<close>

theorem later_occurrence_is_used:
  "''G1 X Y2 X7'' = ''G1 '' @ CHR ''X'' # '' Y2 X7''
   \<and> CHR ''X'' \<notin> set ''G1 ''
   \<and> rx_match number_rx '' Y2 X7'' = None
   \<and> \<not> has_number '' Y2 X7''
   \<and> extract_coords ''G1 X Y2 X7'' CHR ''X'' = Some 7"
proof -
  have 1: "rx_match number_rx '' Y2 X7'' = None"
    by (simp add: number_rx_def is_digit_def)
  have 2: "\<not> has_number '' Y2 X7''"
    by (simp add: has_number_def spec_number_def spec_unsigned_def is_digit_def)
  have 3: "extract_coords ''G1 X Y2 X7'' CHR ''X'' = Some 7"
    by (simp add: extract_coords_def number_rx_def is_digit_def float_of_def unsigned_val_def
        digits_val_def digit_val_def)
  from 1 2 3 show ?thesis by simp
qed

subsection \<open>C5: motion lines are recognised by a case-sensitive prefix\<close>

text \<open>
  Claim C5 says that the classification of a line as a motion command is insensitive to
  case, so that a lowercase spelling is treated as the uppercase one.
  The loop tests \<^verbatim>\<open>stripped.startswith(('G0', 'G1'))\<close>, which is sensitive to case
  (the pattern \<^verbatim>\<open>move_re\<close>, compiled with \<^verbatim>\<open>re.IGNORECASE\<close>, is never used): the
  line \<^verbatim>\<open>G1 X1 E1\<close> is rewritten with a pulse, the line \<^verbatim>\<open>g1 X1 E1\<close> is copied
  and adds nothing to the accumulator.
\<close>

theorem lowercase_motion_passed_through:
  "is_motion_e ''G1 X1 E1\<newline>'' \<and> \<not> is_motion_e ''g1 X1 E1\<newline>''
   \<and> process_gcode [''G1 X1 E1\<newline>''] =
       [''G1 X1.00000 Y0.00000 E1.00000\<newline>'', ''M106 S255 ; ON\<newline>'',
        ''G4 P200 ; Wait\<newline>'', ''M107 ; OFF\<newline>'', ''G1 X1.00000 Y0.00000 E1.00000\<newline>'']
   \<and> process_gcode [''g1 X1 E1\<newline>''] = [''g1 X1 E1\<newline>'']
   \<and> accumulated_distance (run [''g1 X1 E1\<newline>'']) = 0"
proof -
  let ?u = "''G1 X1 E1\<newline>''" and ?l = "''g1 X1 E1\<newline>''"
  have c: "is_motion_e ?u" "\<not> is_motion_e ?l" "\<not> is_thermal ?l"
    by (simp_all add: classify_eval)
  have e: "end_of (last_pos init_state) ?u = \<lparr> pX = 1, pY = 0, pE = 1, pF = None \<rparr>"
    by (simp add: init_state_def coords_eval)
  have d: "deposit_dist (last_pos init_state) ?u = Some 1"
    by (simp add: deposit_dist_def e) (simp add: classify_eval init_state_def distance_xy_axis)
  have t: "move_type_of ?u = ''G1''" by (simp add: move_type_of_def strip_def is_space_def)
  have 1: "process_gcode [?u] =
       [''G1 X1.00000 Y0.00000 E1.00000\<newline>'', ''M106 S255 ; ON\<newline>'',
        ''G4 P200 ; Wait\<newline>'', ''M107 ; OFF\<newline>'', ''G1 X1.00000 Y0.00000 E1.00000\<newline>'']"
    by (simp add: process_gcode_single unit_move_emitted[OF d e] t)
  have n: "deposit_dist (last_pos init_state) ?l = None"
    using c(2) by (simp add: deposit_dist_def)
  have 2: "process_gcode [?l] = [?l]"
    by (simp add: process_gcode_single emitted_verbatim[OF c(3) n])
  have 3: "accumulated_distance (run [?l]) = 0"
    by (simp add: run_def accumulated_distance_step n) (simp add: init_state_def)
  from c(1,2) 1 2 3 show ?thesis by (intro conjI)
qed

subsection \<open>C2: the command code of the emitted motion lines\<close>

text \<open>
  Claim C2 says that the motion lines emitted for a depositing move carry the command
  code of the original move. The loop takes \<^verbatim>\<open>'G1' if 'G1' in stripped else 'G0'\<close>:
  a line that begins with G0 and holds the text G1 further on (here in its comment) is
  rewritten into G1 lines, where the same move without the comment gives G0 lines.
  The rest of the claim holds with \<^verbatim>\<open>move_type\<close> for the command code: see
  \<open>pulse_emission\<close> for the four lines of each interpolated point and \<open>fmt_f_shape\<close>
  for the five digits after the point.
\<close>

theorem substring_decides_command_code:
  "prefix ''G0'' (strip ''G0 X1 E1 ;G1\<newline>'')
   \<and> process_gcode [''G0 X1 E1 ;G1\<newline>''] =
       [''G1 X1.00000 Y0.00000 E1.00000\<newline>'', ''M106 S255 ; ON\<newline>'',
        ''G4 P200 ; Wait\<newline>'', ''M107 ; OFF\<newline>'', ''G1 X1.00000 Y0.00000 E1.00000\<newline>'']
   \<and> process_gcode [''G0 X1 E1\<newline>''] =
       [''G0 X1.00000 Y0.00000 E1.00000\<newline>'', ''M106 S255 ; ON\<newline>'',
        ''G4 P200 ; Wait\<newline>'', ''M107 ; OFF\<newline>'', ''G0 X1.00000 Y0.00000 E1.00000\<newline>'']"
proof -
  let ?l = "''G0 X1 E1 ;G1\<newline>''" and ?k = "''G0 X1 E1\<newline>''"
  have s: "strip ?l = ''G0 X1 E1 ;G1''" "strip ?k = ''G0 X1 E1''"
    by (simp_all add: strip_def is_space_def)
  have e: "end_of (last_pos init_state) ?l = \<lparr> pX = 1, pY = 0, pE = 1, pF = None \<rparr>"
    "end_of (last_pos init_state) ?k = \<lparr> pX = 1, pY = 0, pE = 1, pF = None \<rparr>"
    by (simp_all add: init_state_def coords_eval)
  have d: "deposit_dist (last_pos init_state) ?l = Some 1"
    "deposit_dist (last_pos init_state) ?k = Some 1"
    by (simp_all add: deposit_dist_def e) (simp_all add: classify_eval init_state_def distance_xy_axis)
  have t: "move_type_of ?l = ''G1''" "move_type_of ?k = ''G0''"
    by (simp_all add: move_type_of_def s)
  have 0: "prefix ''G0'' (strip ?l)" by (simp add: s)
  have 1: "process_gcode [?l] =
       [''G1 X1.00000 Y0.00000 E1.00000\<newline>'', ''M106 S255 ; ON\<newline>'',
        ''G4 P200 ; Wait\<newline>'', ''M107 ; OFF\<newline>'', ''G1 X1.00000 Y0.00000 E1.00000\<newline>'']"
    by (simp add: process_gcode_single unit_move_emitted[OF d(1) e(1)] t)
  have 2: "process_gcode [?k] =
       [''G0 X1.00000 Y0.00000 E1.00000\<newline>'', ''M106 S255 ; ON\<newline>'',
        ''G4 P200 ; Wait\<newline>'', ''M107 ; OFF\<newline>'', ''G0 X1.00000 Y0.00000 E1.00000\<newline>'']"
    by (simp add: process_gcode_single unit_move_emitted[OF d(2) e(2)] t)
  from 0 1 2 show ?thesis by (intro conjI)
qed

end
